theory Spec2Isabelle
  imports Main "HOL-Library.Sublist"
begin

section \<open>Python strings\<close>

text \<open>
  Style names are Python \<^verbatim>\<open>str\<close> values. They are modelled as lists of
  \<^typ>\<open>char\<close>, each character standing for the Unicode code point of the same
  number, so the model covers the names whose code points are below 256. On that range
  the character classes below are the ones of \<^verbatim>\<open>str.isspace\<close>, of the
  regular expression classes \<^verbatim>\<open>\s\<close>, \<^verbatim>\<open>\d\<close>, \<^verbatim>\<open>\w\<close>,
  of \<^verbatim>\<open>str.isdigit\<close> and of \<^verbatim>\<open>str.lower\<close>. Python integers are
  unbounded and are modelled as \<^typ>\<open>int\<close>.
\<close>

definition code_point :: "char \<Rightarrow> nat" where
  "code_point c = of_char c"

definition is_space :: "char \<Rightarrow> bool" where
  "is_space c =
     (let n = code_point c
      in (9 \<le> n \<and> n \<le> 13) \<or> (28 \<le> n \<and> n \<le> 32) \<or> n = 133 \<or> n = 160)"

definition is_decimal :: "char \<Rightarrow> bool" where
  "is_decimal c = (let n = code_point c in 48 \<le> n \<and> n \<le> 57)"

definition is_digit_char :: "char \<Rightarrow> bool" where
  "is_digit_char c =
     (let n = code_point c in (48 \<le> n \<and> n \<le> 57) \<or> n = 178 \<or> n = 179 \<or> n = 185)"

definition is_word :: "char \<Rightarrow> bool" where
  "is_word c =
     (let n = code_point c
      in (48 \<le> n \<and> n \<le> 57) \<or> (65 \<le> n \<and> n \<le> 90) \<or> n = 95 \<or> (97 \<le> n \<and> n \<le> 122)
         \<or> n = 170 \<or> n = 178 \<or> n = 179 \<or> n = 181 \<or> n = 185 \<or> n = 186
         \<or> (188 \<le> n \<and> n \<le> 190) \<or> (192 \<le> n \<and> n \<le> 214) \<or> (216 \<le> n \<and> n \<le> 246)
         \<or> (248 \<le> n \<and> n \<le> 255))"

definition lower_char :: "char \<Rightarrow> char" where
  "lower_char c =
     (let n = code_point c
      in if (65 \<le> n \<and> n \<le> 90) \<or> (192 \<le> n \<and> n \<le> 222 \<and> n \<noteq> 215)
         then char_of (n + 32) else c)"

definition py_lower :: "string \<Rightarrow> string" where
  "py_lower s = map lower_char s"

definition py_strip :: "string \<Rightarrow> string" where
  "py_strip s = rev (dropWhile is_space (rev (dropWhile is_space s)))"

text \<open>\<^verbatim>\<open>needle in hay\<close> on strings: \<open>needle\<close> occurs in \<open>hay\<close> as a contiguous block.\<close>

definition py_in :: "string \<Rightarrow> string \<Rightarrow> bool" where
  "py_in needle hay = sublist needle hay"

definition py_isdigit :: "string \<Rightarrow> bool" where
  "py_isdigit s = (s \<noteq> [] \<and> list_all is_digit_char s)"

text \<open>
  \<^verbatim>\<open>int(s)\<close> for a string of decimal digits, as the expression \<^verbatim>\<open>\d+\<close> yields.
  The conversion raises \<^verbatim>\<open>ValueError\<close> (the result \<open>None\<close>) when the string has more
  digits than the interpreter's limit \<^verbatim>\<open>sys.int_max_str_digits\<close>, 4300 unless it is
  set otherwise; leading zeros count.
\<close>

datatype py_error = ValueError

definition int_max_str_digits :: nat where
  "int_max_str_digits = 4300"

definition decimal_value :: "string \<Rightarrow> int" where
  "decimal_value s = foldl (\<lambda>acc c. 10 * acc + (int (code_point c) - 48)) 0 s"

definition py_int :: "string \<Rightarrow> int option" where
  "py_int s = (if length s > int_max_str_digits then None else Some (decimal_value s))"


section \<open>Regular expressions\<close>

text \<open>
  The fragment of Python's \<^verbatim>\<open>re\<close> that the three patterns of the style analyzer
  use, with the backtracking semantics of the library: \<open>rmatch r st\<close> lists the states
  the matcher can be in after \<open>r\<close>, in the order in which it tries them (greedy
  repetition first). A state is the character before the position (for \<^verbatim>\<open>\b\<close>),
  the rest of the input, and the groups captured so far, the latest first.
\<close>

datatype rx =
    Cls "char \<Rightarrow> bool"
  | Star "char \<Rightarrow> bool"
  | Seq rx rx
  | Upto nat rx
  | Bnd
  | Eos
  | Grp nat rx

type_synonym mstate = "char option \<times> string \<times> (nat \<times> string) list"

fun star_cls :: "(char \<Rightarrow> bool) \<Rightarrow> char option \<Rightarrow> string \<Rightarrow> (char option \<times> string) list" where
  "star_cls p prev [] = [(prev, [])]"
| "star_cls p prev (c # cs) =
     (if p c then star_cls p (Some c) cs @ [(prev, c # cs)] else [(prev, c # cs)])"

definition word_before :: "char option \<Rightarrow> bool" where
  "word_before prev = (case prev of None \<Rightarrow> False | Some c \<Rightarrow> is_word c)"

definition word_after :: "string \<Rightarrow> bool" where
  "word_after rest = (case rest of [] \<Rightarrow> False | c # _ \<Rightarrow> is_word c)"

fun rx_weight :: "rx \<Rightarrow> nat" where
  "rx_weight (Cls p) = 1"
| "rx_weight (Star p) = 1"
| "rx_weight (Seq a b) = Suc (rx_weight a + rx_weight b)"
| "rx_weight (Upto n r) = Suc (n + rx_weight r)"
| "rx_weight Bnd = 1"
| "rx_weight Eos = 1"
| "rx_weight (Grp n r) = Suc (rx_weight r)"

function rmatch :: "rx \<Rightarrow> mstate \<Rightarrow> mstate list" where
  "rmatch (Cls p) (prev, rest, caps) =
     (case rest of [] \<Rightarrow> [] | c # cs \<Rightarrow> if p c then [(Some c, cs, caps)] else [])"
| "rmatch (Star p) (prev, rest, caps) = map (\<lambda>(q, r). (q, r, caps)) (star_cls p prev rest)"
| "rmatch (Seq a b) st = concat (map (rmatch b) (rmatch a st))"
| "rmatch (Upto 0 r) st = [st]"
| "rmatch (Upto (Suc n) r) st = concat (map (rmatch (Upto n r)) (rmatch r st)) @ [st]"
| "rmatch Bnd (prev, rest, caps) =
     (if word_before prev \<noteq> word_after rest then [(prev, rest, caps)] else [])"
| "rmatch Eos (prev, rest, caps) =
     (if rest = [] \<or> rest = [CHR 0x0A] then [(prev, rest, caps)] else [])"
| "rmatch (Grp k r) (prev, rest, caps) =
     map (\<lambda>(q, rest', caps'). (q, rest', (k, take (length rest - length rest') rest) # caps'))
       (rmatch r (prev, rest, caps))"
  by pat_completeness auto
termination
  by (relation "measure (\<lambda>(r, st). rx_weight r)") auto

text \<open>\<^verbatim>\<open>pattern.match(s)\<close>: the first way to match at the start of \<open>s\<close>, as the
  matched text (group 0) and the captured groups.\<close>

definition re_match :: "rx \<Rightarrow> string \<Rightarrow> (string \<times> (nat \<times> string) list) option" where
  "re_match r s =
     (case rmatch r (None, s, []) of
        [] \<Rightarrow> None
      | (q, rest, caps) # _ \<Rightarrow> Some (take (length s - length rest) s, caps))"

text \<open>\<^verbatim>\<open>re.search(pattern, s)\<close>: the first match at the leftmost position that has one.\<close>

fun re_search_from :: "rx \<Rightarrow> char option \<Rightarrow> string \<Rightarrow> (string \<times> (nat \<times> string) list) option" where
  "re_search_from r prev s =
     (case rmatch r (prev, s, []) of
        (q, rest, caps) # _ \<Rightarrow> Some (take (length s - length rest) s, caps)
      | [] \<Rightarrow> (case s of [] \<Rightarrow> None | c # cs \<Rightarrow> re_search_from r (Some c) cs))"

definition re_search :: "rx \<Rightarrow> string \<Rightarrow> (string \<times> (nat \<times> string) list) option" where
  "re_search r s = re_search_from r None s"

text \<open>\<^verbatim>\<open>m.group(k)\<close> for a group that took part in the match; the source reads no other.\<close>

definition group :: "(nat \<times> string) list \<Rightarrow> nat \<Rightarrow> string" where
  "group caps k = (case map_of caps k of Some g \<Rightarrow> g | None \<Rightarrow> [])"

definition plus :: "(char \<Rightarrow> bool) \<Rightarrow> rx" where
  "plus p = Seq (Cls p) (Star p)"

text \<open>A literal of the pattern under \<^verbatim>\<open>re.IGNORECASE\<close>.\<close>

definition ci :: "char \<Rightarrow> rx" where
  "ci p = Cls (\<lambda>c. lower_char c = lower_char p)"

definition is_sep :: "char \<Rightarrow> bool" where
  "is_sep c = (c = CHR ''.'' \<or> c = CHR ''-'')"

text \<open>\<^verbatim>\<open>re.compile(r"^Heading\s+(\d+)$", re.IGNORECASE)\<close>\<close>

definition builtin_heading_pattern :: rx where
  "builtin_heading_pattern =
     Seq (ci CHR ''H'') (Seq (ci CHR ''e'') (Seq (ci CHR ''a'') (Seq (ci CHR ''d'')
     (Seq (ci CHR ''i'') (Seq (ci CHR ''n'') (Seq (ci CHR ''g'')
     (Seq (plus is_space) (Seq (Grp 1 (plus is_decimal)) Eos))))))))"

text \<open>\<^verbatim>\<open>re.compile(r"^\s*(\d+)([.\-]\d+){0,8}\b")\<close>\<close>

definition numeric_leading_pattern :: rx where
  "numeric_leading_pattern =
     Seq (Star is_space) (Seq (Grp 1 (plus is_decimal))
     (Seq (Upto 8 (Grp 2 (Seq (Cls is_sep) (plus is_decimal)))) Bnd))"

text \<open>\<^verbatim>\<open>r'(\d+)'\<close>\<close>

definition number_pattern :: rx where
  "number_pattern = Grp 1 (plus is_decimal)"

text \<open>\<^verbatim>\<open>re.split(r"[.\-]", s)\<close>\<close>

fun re_split_sep :: "string \<Rightarrow> string list" where
  "re_split_sep [] = [[]]"
| "re_split_sep (c # cs) =
     (if is_sep c then [] # re_split_sep cs
      else (case re_split_sep cs of seg # segs \<Rightarrow> (c # seg) # segs | [] \<Rightarrow> [[c]]))"

text \<open>\<^verbatim>\<open>re.sub(r"^\s+", "", s)\<close>\<close>

definition re_sub_leading_space :: "string \<Rightarrow> string" where
  "re_sub_leading_space s = dropWhile is_space s"


section \<open>Style analyzer\<close>

subsection \<open>Level inference\<close>

definition infer_heading_level :: "string \<Rightarrow> int" where
  "infer_heading_level style_name =
     (let style_lower = py_lower style_name;
          number_level =
            (case re_search number_pattern style_name of
               None \<Rightarrow> None
             | Some (g0, caps) \<Rightarrow>
                 (case py_int (group caps 1) of
                    None \<Rightarrow> None
                  | Some level \<Rightarrow> if 1 \<le> level \<and> level \<le> 9 then Some level else None))
      in case number_level of
           Some level \<Rightarrow> level
         | None \<Rightarrow>
             if list_ex (\<lambda>word. py_in word style_lower)
                  [''title'', ''main'', ''principal'', ''primary''] then 1
             else if list_ex (\<lambda>word. py_in word style_lower)
                  [''section'', ''chapter'', ''part''] then 2
             else if list_ex (\<lambda>word. py_in word style_lower)
                  [''subsection'', ''subchapter''] then 3
             else 2)"

subsection \<open>The vocabularies of the classifier\<close>

definition builtin_non_heading_styles :: "string list" where
  "builtin_non_heading_styles =
     [''Normal'', ''No Spacing'', ''Quote'', ''Intense Quote'', ''Subtle Emphasis'',
      ''Intense Emphasis'', ''Strong'', ''Subtle Reference'', ''Intense Reference'',
      ''Book Title'', ''List Paragraph'', ''Body Text'', ''Body Text 2'', ''Body Text 3'',
      ''Body Text Indent'', ''Body Text First Indent'', ''Body Text First Indent 2'',
      ''List'', ''List 2'', ''List 3'', ''List Bullet'', ''List Bullet 2'', ''List Bullet 3'',
      ''List Continue'', ''List Continue 2'', ''List Continue 3'', ''List Number'',
      ''List Number 2'', ''List Number 3'', ''Caption'', ''Figure Caption'', ''Table Caption'',
      ''Image Caption'', ''Footnote Text'', ''Footnote Reference'', ''Endnote Text'',
      ''Endnote Reference'', ''Bibliography'', ''Index 1'', ''Index 2'', ''Index 3'',
      ''Index 4'', ''Index 5'', ''Index 6'', ''Index 7'', ''Index 8'', ''Index 9'',
      ''TOC 1'', ''TOC 2'', ''TOC 3'', ''TOC 4'', ''TOC 5'', ''TOC 6'', ''TOC 7'', ''TOC 8'',
      ''TOC 9'', ''TOC Heading'', ''Table of Contents'', ''Header'', ''Footer'', ''Page Number'',
      ''Compact'', ''Plain Text'', ''HTML Preformatted'', ''Document Map'', ''Hyperlink'',
      ''FollowedHyperlink'', ''Macro Text'', ''Block Text'', ''Date'', ''Salutation'',
      ''Signature'', ''Closing'', ''Sans Interligne'', ''Texte Normal'', ''Citation'', ''Legende'']"

definition strong_exclusions :: "string list" where
  "strong_exclusions =
     [''caption'', ''footnote'', ''endnote'', ''toc'', ''bibliography'',
      ''format'', ''case'', ''overview'', ''break'', ''divider'', ''separator'']"

definition medium_exclusions :: "string list" where
  "medium_exclusions = [''quote'', ''emphasis'', ''strong'', ''list'', ''continue'', ''text'']"

definition international_patterns :: "string list" where
  "international_patterns =
     [''titre'', ''titulo'', ''uberschrift'', ''haupt'', ''sous-titre'',
      ''chapitre'', ''partie'', ''sous-chapitre'', ''sous chapitre'', ''sous-section'',
      ''sous section'']"

definition org_patterns :: "string list" where
  "org_patterns = [''department head'', ''section header'', ''chapter title'', ''part title'']"

subsection \<open>Classification of one style\<close>

text \<open>
  What the style's XML element gives for the outline level (rule 10): the style object
  has no element, the lookup or the conversion of its first value raises, the lookup
  finds no value, or its first value converts to an integer.
\<close>

datatype outline_lookup = No_element | Lookup_raises | No_outline | Outline int

text \<open>
  The body of the loop for one paragraph style with a name: \<open>Inr (Some level)\<close> when the
  style is entered into the heading map, \<open>Inr None\<close> when it is left out, and \<open>Inl e\<close>
  when the body raises \<open>e\<close>. The conversion of the number in the first rule has no
  handler of its own; the level inference catches the \<^verbatim>\<open>ValueError\<close> of its
  conversion and goes on to the tiers (the \<open>None\<close> of \<open>number_level\<close> above).
\<close>

definition classify_style :: "string \<Rightarrow> outline_lookup \<Rightarrow> py_error + int option" where
  "classify_style style_name ol =
     (let style_lower = py_strip (py_lower style_name);
          builtin_level =
            (case re_match builtin_heading_pattern style_name of
               None \<Rightarrow> Inr None
             | Some (g0, caps) \<Rightarrow>
                 (case py_int (group caps 1) of
                    None \<Rightarrow> Inl ValueError
                  | Some level \<Rightarrow>
                      if 1 \<le> level \<and> level \<le> 9 then Inr (Some level) else Inr None))
      in case builtin_level of
           Inl e \<Rightarrow> Inl e
         | Inr (Some level) \<Rightarrow> Inr (Some level)
         | Inr None \<Rightarrow>
            (case re_match numeric_leading_pattern style_name of
               Some (matched, caps) \<Rightarrow>
                 (let segments = filter py_isdigit (re_split_sep (re_sub_leading_space matched))
                  in Inr (Some (max 1 (min 6 (int (length segments))))))
             | None \<Rightarrow>
                 if style_name \<in> set builtin_non_heading_styles then Inr None
                 else if list_ex (\<lambda>builtin. py_lower builtin = style_lower)
                           builtin_non_heading_styles then Inr None
                 else if list_ex (\<lambda>pattern. py_in pattern style_lower) strong_exclusions
                   then Inr None
                 else if list_ex (\<lambda>pattern. py_in pattern style_lower) medium_exclusions
                   then Inr None
                 else if list_ex (\<lambda>pattern. py_in pattern style_lower) international_patterns
                   then Inr (Some (infer_heading_level style_name))
                 else if py_in ''heading'' style_lower then
                   (if py_in ''style'' style_lower then Inr (Some (infer_heading_level style_name))
                    else if py_in ''text'' style_lower then Inr None
                    else Inr (Some (infer_heading_level style_name)))
                 else if list_ex (\<lambda>pattern. py_in pattern style_lower) org_patterns
                   then Inr (Some (infer_heading_level style_name))
                 else if list_ex (\<lambda>pattern. py_in pattern style_lower) [''title'', ''header'']
                   then Inr (Some (infer_heading_level style_name))
                 else (case ol of
                         Outline outline_level \<Rightarrow>
                           if 0 \<le> outline_level \<and> outline_level \<le> 8
                           then Inr (Some (outline_level + 1)) else Inr None
                       | _ \<Rightarrow> Inr None)))"

subsection \<open>The style catalog and the loop over it\<close>

datatype wd_style_type = CHARACTER | PARAGRAPH | TABLE | LIST

record style =
  style_type :: wd_style_type
  style_name :: "string option"
  outline :: outline_lookup

text \<open>
  Reading the catalog can fail: \<open>Unreadable\<close> when \<^verbatim>\<open>doc.styles\<close> raises before
  it yields a style, and \<open>Inspect_raises\<close> for an entry whose type or name raises when
  it is read. The body of the loop can raise too. The handler around the loop catches
  every exception; the map filled so far is what the function then returns.
\<close>

datatype catalog_item = Style style | Inspect_raises

datatype styles_access = Unreadable | Styles "catalog_item list"

datatype loop_exit = Finished "string \<rightharpoonup> int" | Raised "string \<rightharpoonup> int"

fun styles_loop :: "catalog_item list \<Rightarrow> (string \<rightharpoonup> int) \<Rightarrow> loop_exit" where
  "styles_loop [] heading_map = Finished heading_map"
| "styles_loop (Inspect_raises # rest) heading_map = Raised heading_map"
| "styles_loop (Style st # rest) heading_map =
     (case style_name st of
        None \<Rightarrow> styles_loop rest heading_map
      | Some name \<Rightarrow>
          if style_type st = PARAGRAPH \<and> name \<noteq> [] then
            (case classify_style name (outline st) of
               Inl e \<Rightarrow> Raised heading_map
             | Inr (Some level) \<Rightarrow> styles_loop rest (heading_map(name \<mapsto> level))
             | Inr None \<Rightarrow> styles_loop rest heading_map)
          else styles_loop rest heading_map)"

definition exit_map :: "loop_exit \<Rightarrow> (string \<rightharpoonup> int)" where
  "exit_map e = (case e of Finished heading_map \<Rightarrow> heading_map | Raised heading_map \<Rightarrow> heading_map)"

definition build_style_heading_map :: "styles_access \<Rightarrow> (string \<rightharpoonup> int)" where
  "build_style_heading_map doc_styles =
     (case doc_styles of
        Unreadable \<Rightarrow> Map.empty
      | Styles items \<Rightarrow>
          (case styles_loop items Map.empty of
             Finished heading_map \<Rightarrow> heading_map
           | Raised heading_map \<Rightarrow> heading_map))"


section \<open>Filter provider\<close>

text \<open>
  \<^verbatim>\<open>DocxFilterProvider.build_exclusion_map\<close>. The argument is a dictionary (its
  items, in order) or \<^verbatim>\<open>None\<close>; the result maps a level to a set of style names.
\<close>

fun exclusion_loop :: "(string \<times> bool) list \<Rightarrow> (int \<rightharpoonup> string set) \<Rightarrow> (int \<rightharpoonup> string set)" where
  "exclusion_loop [] style_excl_map = style_excl_map"
| "exclusion_loop ((style, excluded) # rest) style_excl_map =
     (if \<not> excluded then exclusion_loop rest style_excl_map
      else exclusion_loop rest
             (style_excl_map(1 \<mapsto>
                insert style (case style_excl_map 1 of None \<Rightarrow> {} | Some styles \<Rightarrow> styles))))"

definition build_exclusion_map :: "(string \<times> bool) list option \<Rightarrow> (int \<rightharpoonup> string set)" where
  "build_exclusion_map exclusions =
     exclusion_loop (case exclusions of None \<Rightarrow> [] | Some items \<Rightarrow> items) Map.empty"



section \<open>Conversion\<close>

subsection \<open>The final style map\<close>

text \<open>
  Lines 103 to 125 of \<^verbatim>\<open>convert_docx_to_dita_internal\<close>: the classifier's map, filled
  from \<^verbatim>\<open>STYLE_MAP\<close> where a style has no entry yet, then overwritten by the
  caller's \<^verbatim>\<open>style_heading_map\<close>. \<^verbatim>\<open>STYLE_MAP\<close> belongs to a module that
  is not among these sources and is a parameter here. A dictionary is the list of its
  items in iteration order. The third argument is \<open>None\<close> when the run metadata has no
  dictionary under \<^verbatim>\<open>style_heading_map\<close>. The counters that the source keeps for its
  log messages are left out.
\<close>

fun fill_from_style_map :: "(string \<times> int) list \<Rightarrow> (string \<rightharpoonup> int) \<Rightarrow> (string \<rightharpoonup> int)" where
  "fill_from_style_map [] style_heading_map = style_heading_map"
| "fill_from_style_map ((k, v) # rest) style_heading_map =
     (if style_heading_map k = None
      then fill_from_style_map rest (style_heading_map(k \<mapsto> v))
      else fill_from_style_map rest style_heading_map)"

fun apply_user_overrides :: "(string \<times> int) list \<Rightarrow> (string \<rightharpoonup> int) \<Rightarrow> (string \<rightharpoonup> int)" where
  "apply_user_overrides [] style_heading_map = style_heading_map"
| "apply_user_overrides ((k, v) # rest) style_heading_map =
     apply_user_overrides rest (style_heading_map(k \<mapsto> v))"

definition final_style_heading_map ::
  "styles_access \<Rightarrow> (string \<times> int) list \<Rightarrow> (string \<times> int) list option \<Rightarrow> (string \<rightharpoonup> int)" where
  "final_style_heading_map doc_styles STYLE_MAP metadata_style_heading_map =
     (let style_heading_map = fill_from_style_map STYLE_MAP (build_style_heading_map doc_styles)
      in case metadata_style_heading_map of
           Some user_overrides \<Rightarrow> apply_user_overrides user_overrides style_heading_map
         | None \<Rightarrow> style_heading_map)"

subsection \<open>Paths\<close>

text \<open>\<^verbatim>\<open>os.path.basename\<close> and \<^verbatim>\<open>os.path.splitext\<close> as \<^verbatim>\<open>posixpath\<close>
  defines them; \<^verbatim>\<open>str.rfind\<close> for one character.\<close>

definition py_rfind :: "string \<Rightarrow> char \<Rightarrow> int" where
  "py_rfind s c =
     (if c \<in> set s then int (length s) - 1 - int (length (takeWhile (\<lambda>x. x \<noteq> c) (rev s)))
      else - 1)"

definition basename :: "string \<Rightarrow> string" where
  "basename p = drop (nat (py_rfind p CHR ''/'' + 1)) p"

definition splitext :: "string \<Rightarrow> string \<times> string" where
  "splitext p =
     (let sepIndex = py_rfind p CHR ''/'';
          dotIndex = py_rfind p CHR ''.''
      in if dotIndex > sepIndex \<and>
            list_ex (\<lambda>c. c \<noteq> CHR ''.'')
              (take (nat (dotIndex - (sepIndex + 1))) (drop (nat (sepIndex + 1)) p))
         then (take (nat dotIndex) p, drop (nat dotIndex) p)
         else (p, []))"

text \<open>\<^verbatim>\<open>s.replace(old, new)\<close> for a non-empty \<open>old\<close>; the first argument counts the
  characters of an occurrence still to be skipped.\<close>

fun replace_from :: "nat \<Rightarrow> string \<Rightarrow> string \<Rightarrow> string \<Rightarrow> string" where
  "replace_from k old new [] = []"
| "replace_from (Suc k) old new (c # cs) = replace_from k old new cs"
| "replace_from 0 old new (c # cs) =
     (if prefix old (c # cs) then new @ replace_from (length old - 1) old new cs
      else c # replace_from 0 old new cs)"

definition py_replace :: "string \<Rightarrow> string \<Rightarrow> string \<Rightarrow> string" where
  "py_replace s old new = replace_from 0 old new s"

subsection \<open>Elements\<close>

datatype xml = Element (xml_tag: string) (xml_attrib: "(string \<times> string) list")
  (xml_text: "string option") (xml_children: "xml list")

definition SubElement :: "xml \<Rightarrow> xml \<Rightarrow> xml" where
  "SubElement parent child =
     Element (xml_tag parent) (xml_attrib parent) (xml_text parent) (xml_children parent @ [child])"

definition xml_get :: "xml \<Rightarrow> string \<Rightarrow> string option" where
  "xml_get e k = map_of (xml_attrib e) k"

definition child_elements :: "xml \<Rightarrow> string \<Rightarrow> xml list" where
  "child_elements e t = filter (\<lambda>c. xml_tag c = t) (xml_children e)"

text \<open>The \<^verbatim>\<open>content\<close> of the \<^verbatim>\<open>othermeta\<close> entries called \<open>name\<close> in the
  \<^verbatim>\<open>topicmeta\<close> of a navigation entry, and the texts of its \<^verbatim>\<open>navtitle\<close>.\<close>

definition othermeta :: "xml \<Rightarrow> string \<Rightarrow> string option list" where
  "othermeta topicref name =
     map (\<lambda>m. xml_get m ''content'')
       (filter (\<lambda>m. xml_get m ''name'' = Some name)
          (concat (map (\<lambda>tm. child_elements tm ''othermeta'') (child_elements topicref ''topicmeta''))))"

definition navtitles :: "xml \<Rightarrow> string option list" where
  "navtitles topicref =
     map xml_text
       (concat (map (\<lambda>tm. child_elements tm ''navtitle'') (child_elements topicref ''topicmeta'')))"

subsection \<open>The fallback topic\<close>

text \<open>
  The state of the conversion that the fallback reads and writes: the run metadata, the
  root of the map and the topics by file name (a dictionary, as the list of its items).
\<close>

record 'c dita_context =
  metadata :: "string \<rightharpoonup> string"
  ditamap_root :: xml
  topics :: "(string \<times> 'c) list"

text \<open>
  Lines 176 to 213 of \<^verbatim>\<open>convert_docx_to_dita_internal\<close>. The helpers of modules that
  are not among these sources are parameters: \<open>create_dita_concept title topic_id date\<close>
  is the concept element that the helper of that name builds (with its empty body), and
  \<open>add_content_to_topic concept blocks\<close> is that element after the helper of that name
  has written the blocks into its body. \<open>uuid_hex\<close> is \<^verbatim>\<open>uuid.uuid4().hex\<close>, \<open>today\<close> is
  the current date as \<^verbatim>\<open>%Y-%m-%d\<close>, and \<open>all_blocks\<close> is the list of
  \<^verbatim>\<open>iter_block_items(doc)\<close>. The element is built with its children in place, where
  the source appends them one by one to an element it has already attached.
\<close>

definition fallback_title_of :: "string \<Rightarrow> string" where
  "fallback_title_of file_path =
     (let stem = fst (splitext (basename file_path)) in if stem = [] then ''Document'' else stem)"

definition fallback_topicref :: "string \<Rightarrow> string \<Rightarrow> string \<Rightarrow> xml" where
  "fallback_topicref file_name fallback_title rev_date_fb =
     Element ''topicref''
       [(''href'', ''topics/'' @ file_name), (''locktitle'', ''yes''), (''data-level'', ''1'')] None
       [Element ''topicmeta'' [] None
          [Element ''navtitle'' [] (Some fallback_title) [],
           Element ''critdates'' [] None
             [Element ''created'' [(''date'', rev_date_fb)] None [],
              Element ''revised'' [(''modified'', rev_date_fb)] None []],
           Element ''othermeta'' [(''name'', ''tocIndex''), (''content'', ''1'')] None [],
           Element ''othermeta'' [(''name'', ''foldout''), (''content'', ''false'')] None [],
           Element ''othermeta'' [(''name'', ''tdm''), (''content'', ''false'')] None []]]"

definition fallback ::
  "(string \<Rightarrow> string \<Rightarrow> string \<Rightarrow> 'c) \<Rightarrow> ('c \<Rightarrow> 'b list \<Rightarrow> 'c) \<Rightarrow>
   string \<Rightarrow> string \<Rightarrow> string \<Rightarrow> 'b list \<Rightarrow> 'c dita_context \<Rightarrow> 'c dita_context" where
  "fallback create_dita_concept add_content_to_topic file_path uuid_hex today all_blocks context =
     (if topics context \<noteq> [] then context
      else
        (let fallback_title = fallback_title_of file_path;
             file_name = ''topic_'' @ take 10 uuid_hex @ ''.dita'';
             topic_id = py_replace file_name ''.dita'' [];
             concept_root =
               create_dita_concept fallback_title topic_id
                 (case metadata context ''revision_date'' of Some d \<Rightarrow> d | None \<Rightarrow> today);
             concept_root = add_content_to_topic concept_root all_blocks;
             rev_date_fb =
               (case metadata context ''revision_date'' of
                  Some d \<Rightarrow> if d = [] then today else d
                | None \<Rightarrow> today)
         in context
              \<lparr>ditamap_root :=
                 SubElement (ditamap_root context)
                   (fallback_topicref file_name fallback_title rev_date_fb),
               topics := [(file_name, concept_root)]\<rparr>))"

section \<open>The numeric prefix of a style name\<close>

text \<open>
  The numeric dotted or dashed prefix that a name begins with, read off the name itself
  and not through the regular expression: after leading white space, the longest run of
  the form digits, then any number of groups made of a dot or a dash and digits.
  \<open>numeric_prefix\<close> gives the numeric segments of that prefix and the rest of the name
  after it, or \<open>None\<close> when the name does not begin with a digit.
\<close>

function numeric_groups :: "string \<Rightarrow> (char \<times> string) list \<times> string" where
  "numeric_groups s =
     (case s of
        [] \<Rightarrow> ([], [])
      | c # r \<Rightarrow>
          if is_sep c \<and> takeWhile is_decimal r \<noteq> []
          then (case numeric_groups (dropWhile is_decimal r) of
                  (gs, t) \<Rightarrow> ((c, takeWhile is_decimal r) # gs, t))
          else ([], s))"
  by pat_completeness auto
termination
  by (relation "measure length") (auto simp: length_dropWhile_le less_Suc_eq_le)

definition numeric_prefix :: "string \<Rightarrow> (string list \<times> string) option" where
  "numeric_prefix name =
     (let s = dropWhile is_space name;
          d0 = takeWhile is_decimal s
      in if d0 = [] then None
         else (case numeric_groups (dropWhile is_decimal s) of
                 (gs, t) \<Rightarrow> Some (d0 # map snd gs, t)))"


section \<open>Auxiliary notions\<close>

text \<open>The state that the matcher tries first after \<open>r\<close>, if there is one.\<close>

definition first_result :: "rx \<Rightarrow> mstate \<Rightarrow> mstate \<Rightarrow> bool" where
  "first_result r st st' = (case rmatch r st of [] \<Rightarrow> False | x # _ \<Rightarrow> x = st')"

text \<open>An entry of the catalog at which the loop ends: reading it raises, or it is a
  paragraph style with a name whose classification raises.\<close>

definition entry_raises :: "catalog_item \<Rightarrow> bool" where
  "entry_raises item =
     (case item of
        Inspect_raises \<Rightarrow> True
      | Style st \<Rightarrow>
          (case style_name st of
             None \<Rightarrow> False
           | Some name \<Rightarrow>
               style_type st = PARAGRAPH \<and> name \<noteq> []
               \<and> classify_style name (outline st) = Inl ValueError))"

text \<open>The loop over the catalog gets to the style \<open>st\<close> and classifies it: it is an entry
  of the catalog, and the loop ends neither at an entry before it nor at it.\<close>

definition reached :: "catalog_item list \<Rightarrow> style \<Rightarrow> bool" where
  "reached items st = (Style st \<in> set (takeWhile (\<lambda>item. \<not> entry_raises item) items))"


text \<open>The text of a list of groups, each a separator and its digits.\<close>

definition groups_text :: "(char \<times> string) list \<Rightarrow> string" where
  "groups_text gs = concat (map (\<lambda>(c, ds). c # ds) gs)"

text \<open>The group \<^verbatim>\<open>([.\-]\d+)\<close> of the numeric pattern.\<close>

definition numeric_group :: rx where
  "numeric_group = Grp 2 (Seq (Cls is_sep) (plus is_decimal))"

text \<open>A sufficient test that the word \<open>p\<close> does not occur in \<open>a\<close> followed by any
  white space and digits: \<open>p\<close> has no white space or digit and does not occur in \<open>a\<close>,
  or its first character is neither white space nor a digit and is not in \<open>a\<close>.\<close>

definition plain_char :: "char \<Rightarrow> bool" where
  "plain_char c = (\<not> is_space c \<and> \<not> is_decimal c)"

definition no_hit :: "string \<Rightarrow> string \<Rightarrow> bool" where
  "no_hit a p =
     (p \<noteq> [] \<and> ((list_all plain_char p \<and> \<not> sublist p a)
                 \<or> (plain_char (hd p) \<and> hd p \<notin> set a)))"


section \<open>Properties of the exclusion map\<close>

lemma exclusion_loop_level_one:
  "exclusion_loop items m =
     (if \<exists>s. (s, True) \<in> set items
      then m(1 \<mapsto> {s. (s, True) \<in> set items} \<union> (case m 1 of None \<Rightarrow> {} | Some S \<Rightarrow> S))
      else m)"
proof (induction items arbitrary: m)
  case Nil
  show ?case by simp
next
  case (Cons item items)
  obtain style excluded where item: "item = (style, excluded)"
    by (cases item)
  show ?case
  proof (cases excluded)
    case False
    with item Cons show ?thesis by auto
  next
    case True
    have "exclusion_loop (item # items) m = exclusion_loop items
             (m(1 \<mapsto> insert style (case m 1 of None \<Rightarrow> {} | Some styles \<Rightarrow> styles)))"
      using item True by simp
    also have "\<dots> = m(1 \<mapsto> {s. (s, True) \<in> set (item # items)} \<union> (case m 1 of None \<Rightarrow> {} | Some S \<Rightarrow> S))"
      unfolding Cons using item True by (auto split: option.splits)
    finally show ?thesis using item True by auto
  qed
qed

lemma flagged_iff:
  assumes "distinct (map fst items)"
  shows "(s, b) \<in> set items \<longleftrightarrow> map_of items s = Some b"
  using assms by (metis map_of_SomeD map_of_is_SomeI)

text \<open>
  C8. For a dictionary of exclusion flags, \<open>build_exclusion_map\<close> returns a map whose
  only key is level 1, present exactly when some style is flagged \<open>True\<close>, and mapped
  to the set of the styles flagged \<open>True\<close>; a style flagged \<open>False\<close> is in no set
  of the result. The keys of a dictionary are distinct.
\<close>

theorem build_exclusion_map_level_one:
  assumes "distinct (map fst items)"
  shows "build_exclusion_map (Some items) =
           (if \<exists>s. map_of items s = Some True
            then [1 \<mapsto> {s. map_of items s = Some True}] else Map.empty)
         \<and> (\<forall>s level styles. map_of items s = Some False \<and>
               build_exclusion_map (Some items) level = Some styles \<longrightarrow> s \<notin> styles)"
proof -
  have eq: "build_exclusion_map (Some items) =
           (if \<exists>s. map_of items s = Some True
            then [1 \<mapsto> {s. map_of items s = Some True}] else Map.empty)"
    unfolding build_exclusion_map_def
    by (simp add: exclusion_loop_level_one flagged_iff [OF assms])
  show ?thesis
  proof (intro conjI allI impI)
    show "build_exclusion_map (Some items) =
           (if \<exists>s. map_of items s = Some True
            then [1 \<mapsto> {s. map_of items s = Some True}] else Map.empty)"
      by (rule eq)
  next
    fix s level styles
    assume "map_of items s = Some False \<and> build_exclusion_map (Some items) level = Some styles"
    then show "s \<notin> styles"
      unfolding eq by (auto split: if_splits)
  qed
qed

theorem build_exclusion_map_level_one_witness:
  "distinct (map fst [(''Heading 2'', True), (''Normal'', False), (''Title'', True)])
   \<and> build_exclusion_map (Some [(''Heading 2'', True), (''Normal'', False), (''Title'', True)])
       = [1 \<mapsto> {''Heading 2'', ''Title''}]
   \<and> build_exclusion_map (Some [(''Normal'', False)]) = Map.empty"
proof -
  let ?items = "[(''Heading 2'', True), (''Normal'', False), (''Title'', True)]"
  have d: "distinct (map fst ?items)" by simp
  have t: "map_of ?items ''Title'' = Some True" by simp
  have s: "{s. map_of ?items s = Some True} = {''Heading 2'', ''Title''}"
    by (auto split: if_splits)
  have "build_exclusion_map (Some ?items) = [1 \<mapsto> {''Heading 2'', ''Title''}]"
    using build_exclusion_map_level_one [OF d] t s by (simp only: exI [of _ "''Title''"] if_True) 
  moreover have "build_exclusion_map (Some [(''Normal'', False)]) = Map.empty"
    using build_exclusion_map_level_one [of "[(''Normal'', False)]"] by simp
  ultimately show ?thesis using d by blast
qed

section \<open>Properties of level inference\<close>

lemma rmatch_number_pattern_no_digit:
  "s = [] \<or> \<not> is_decimal (hd s) \<Longrightarrow> rmatch number_pattern (prev, s, caps) = []"
  by (cases s) (auto simp: number_pattern_def plus_def)

lemma re_search_from_no_digit:
  "\<not> list_ex is_decimal s \<Longrightarrow> re_search_from number_pattern prev s = None"
proof (induction s arbitrary: prev)
  case Nil
  then show ?case by (simp add: rmatch_number_pattern_no_digit)
next
  case (Cons c cs)
  then show ?case by (simp add: rmatch_number_pattern_no_digit)
qed

lemma py_in_trans:
  assumes "py_in a b" and "py_in b c"
  shows "py_in a c"
proof -
  from assms obtain p1 s1 p2 s2 where "b = p1 @ a @ s1" and "c = p2 @ b @ s2"
    unfolding py_in_def sublist_def by blast
  then have "c = (p2 @ p1) @ a @ (s1 @ s2)" by simp
  then show ?thesis unfolding py_in_def sublist_def by blast
qed

lemma section_in_subsection:
  "py_in ''subsection'' s \<Longrightarrow> py_in ''section'' s"
proof -
  assume h: "py_in ''subsection'' s"
  have "py_in ''section'' ''subsection''" by (simp add: py_in_def sublist_code)
  then show "py_in ''section'' s" using h by (rule py_in_trans)
qed

lemma chapter_in_subchapter:
  "py_in ''subchapter'' s \<Longrightarrow> py_in ''chapter'' s"
proof -
  assume h: "py_in ''subchapter'' s"
  have "py_in ''chapter'' ''subchapter''" by (simp add: py_in_def sublist_code)
  then show "py_in ''chapter'' s" using h by (rule py_in_trans)
qed

text \<open>
  C6. For a name without a digit whose lower-case form contains \<open>subsection\<close> or
  \<open>subchapter\<close>, level inference does not return 3: the test for \<open>section\<close>,
  \<open>chapter\<close> and \<open>part\<close> comes first and succeeds on every such name, so the result
  is 2, or 1 when the name also has a word of the first tier.
\<close>

theorem infer_heading_level_subsection:
  assumes "\<not> list_ex is_decimal name"
    and "py_in ''subsection'' (py_lower name) \<or> py_in ''subchapter'' (py_lower name)"
  shows "infer_heading_level name =
           (if list_ex (\<lambda>word. py_in word (py_lower name))
                 [''title'', ''main'', ''principal'', ''primary''] then 1 else 2)"
proof -
  have none: "re_search number_pattern name = None"
    unfolding re_search_def using assms(1) by (rule re_search_from_no_digit)
  have "py_in ''section'' (py_lower name) \<or> py_in ''chapter'' (py_lower name)"
    using assms(2) section_in_subsection chapter_in_subchapter by blast
  then show ?thesis
    unfolding infer_heading_level_def by (auto simp: none)
qed

theorem infer_heading_level_subsection_witness:
  "\<not> list_ex is_decimal ''Subsection Header''
   \<and> py_in ''subsection'' (py_lower ''Subsection Header'')
   \<and> infer_heading_level ''Subsection Header'' = 2
   \<and> infer_heading_level ''Subsection Header'' \<noteq> 3"
proof -
  have a: "\<not> list_ex is_decimal ''Subsection Header''" by code_simp
  have b: "py_in ''subsection'' (py_lower ''Subsection Header'')" by code_simp
  have c: "\<not> list_ex (\<lambda>word. py_in word (py_lower ''Subsection Header''))
                 [''title'', ''main'', ''principal'', ''primary'']" by code_simp
  have "infer_heading_level ''Subsection Header'' = 2"
    using infer_heading_level_subsection [OF a disjI1 [OF b]] c by simp
  then show ?thesis using a b by simp
qed

lemma infer_heading_level_range:
  "1 \<le> infer_heading_level name \<and> infer_heading_level name \<le> 9"
  unfolding infer_heading_level_def
  by (auto simp: Let_def split: option.splits prod.splits)

lemma classify_style_range:
  assumes "classify_style name ol = Inr (Some level)"
  shows "1 \<le> level \<and> level \<le> 9"
proof -
  note r = infer_heading_level_range [of name]
  show ?thesis
    using assms r unfolding classify_style_def Let_def
    by (auto split: option.splits prod.splits if_splits outline_lookup.splits)
qed

section \<open>Properties of the loop over the catalog\<close>

lemma exit_map_cases:
  "(case e of Finished heading_map \<Rightarrow> heading_map | Raised heading_map \<Rightarrow> heading_map) = exit_map e"
  by (cases e) (simp_all add: exit_map_def)

lemma build_style_heading_map_Styles:
  "build_style_heading_map (Styles items) = exit_map (styles_loop items Map.empty)"
  by (simp add: build_style_heading_map_def exit_map_cases)

lemma styles_loop_origin:
  assumes "exit_map (styles_loop items m) k = Some v"
  shows "m k = Some v \<or> (\<exists>ol. classify_style k ol = Inr (Some v))"
  using assms
proof (induction items arbitrary: m)
  case Nil
  then show ?case by (simp add: exit_map_def)
next
  case (Cons item items)
  show ?case
  proof (cases item)
    case Inspect_raises
    with Cons.prems show ?thesis by (simp add: exit_map_def)
  next
    case (Style st)
    show ?thesis
    proof (cases "style_name st")
      case None
      with Style Cons show ?thesis by simp
    next
      case (Some name)
      show ?thesis
      proof (cases "style_type st = PARAGRAPH \<and> name \<noteq> []")
        case False
        with Style Some Cons show ?thesis by auto
      next
        case True
        show ?thesis
        proof (cases "classify_style name (outline st)")
          case (Inl e)
          with Style Some True Cons.prems show ?thesis by (simp add: exit_map_def)
        next
          case (Inr r)
          show ?thesis
          proof (cases r)
            case None
            with Inr Style Some True Cons show ?thesis by auto
          next
            case (Some level)
            from Cons.prems Style \<open>style_name st = Some name\<close> True Inr Some
            have "exit_map (styles_loop items (m(name \<mapsto> level))) k = Some v" by simp
            from Cons.IH [OF this] Inr Some show ?thesis
              by (auto split: if_splits)
          qed
        qed
      qed
    qed
  qed
qed

text \<open>
  C9. Every level in the map that \<open>build_style_heading_map\<close> returns lies between 1
  and 9, for every catalog, and so does every value of the level inference.
\<close>

theorem heading_map_levels_in_range:
  "(\<forall>name level. build_style_heading_map doc_styles name = Some level \<longrightarrow>
       1 \<le> level \<and> level \<le> 9)
   \<and> (\<forall>name. 1 \<le> infer_heading_level name \<and> infer_heading_level name \<le> 9)"
proof -
  have levels: "1 \<le> level \<and> level \<le> 9"
    if h: "build_style_heading_map doc_styles name = Some level" for name level
  proof (cases doc_styles)
    case Unreadable
    with h show ?thesis by (simp add: build_style_heading_map_def)
  next
    case (Styles items)
    with h have "exit_map (styles_loop items Map.empty) name = Some level"
      by (simp add: build_style_heading_map_Styles)
    then obtain ol where "classify_style name ol = Inr (Some level)"
      using styles_loop_origin by fastforce
    then show ?thesis by (rule classify_style_range)
  qed
  show ?thesis
    using levels infer_heading_level_range by blast
qed

theorem heading_map_levels_in_range_witness:
  "build_style_heading_map
      (Styles [Style \<lparr>style_type = PARAGRAPH, style_name = Some ''Heading 3'', outline = No_outline\<rparr>])
      ''Heading 3'' = Some 3
   \<and> 1 \<le> (3::int) \<and> (3::int) \<le> 9"
proof -
  let ?doc = "Styles [Style \<lparr>style_type = PARAGRAPH, style_name = Some ''Heading 3'', outline = No_outline\<rparr>]"
  have e: "build_style_heading_map ?doc ''Heading 3'' = Some 3"
    by code_simp
  from heading_map_levels_in_range [of ?doc] e show ?thesis by blast
qed

lemma styles_loop_stops_at_raise:
  "exit_map (styles_loop (pre @ Inspect_raises # post) m) = exit_map (styles_loop pre m)"
proof (induction pre arbitrary: m)
  case Nil
  show ?case by (simp add: exit_map_def)
next
  case (Cons item pre)
  show ?case
    by (cases item) (simp_all add: Cons.IH fun_upd_def split: option.splits sum.splits)
qed

lemma classify_style_lookup_raises:
  "classify_style name Lookup_raises = classify_style name No_outline"
  unfolding classify_style_def
  by (simp cong: option.case_cong sum.case_cong if_cong)

lemma styles_loop_lookup_raises:
  "styles_loop (pre @ Style (st\<lparr>outline := Lookup_raises\<rparr>) # post) m =
   styles_loop (pre @ Style (st\<lparr>outline := No_outline\<rparr>) # post) m"
proof (induction pre arbitrary: m)
  case Nil
  show ?case
    by (cases "style_name st") (simp_all add: classify_style_lookup_raises)
next
  case (Cons item pre)
  show ?case
    by (cases item) (simp_all add: Cons.IH fun_upd_def split: option.splits sum.splits)
qed

text \<open>
  C7, as the claim states it, fails: when reading an entry of the catalog raises, the
  styles after it are not classified. Here the first entry raises and the built-in
  heading style that follows it is missing from the result.
\<close>

theorem style_error_skips_only_offender_counterexample:
  "build_style_heading_map
     (Styles [Inspect_raises,
              Style \<lparr>style_type = PARAGRAPH, style_name = Some ''Heading 1'', outline = No_outline\<rparr>])
     ''Heading 1'' = None
   \<and> build_style_heading_map
     (Styles [Style \<lparr>style_type = PARAGRAPH, style_name = Some ''Heading 1'', outline = No_outline\<rparr>])
     ''Heading 1'' = Some 1"
  by code_simp

text \<open>
  C7, amended. Classification returns a map in every case: the empty map when the catalog
  cannot be read; when reading an entry raises, the map of the entries before it (the
  loop ends there); and a style whose outline-level lookup raises is classified as one
  without an outline level, the loop going on with the next entry.
\<close>

theorem build_style_heading_map_errors:
  "build_style_heading_map Unreadable = Map.empty
   \<and> build_style_heading_map (Styles (pre @ Inspect_raises # post)) =
       build_style_heading_map (Styles pre)
   \<and> build_style_heading_map (Styles (pre @ Style (st\<lparr>outline := Lookup_raises\<rparr>) # post)) =
       build_style_heading_map (Styles (pre @ Style (st\<lparr>outline := No_outline\<rparr>) # post))"
  by (simp add: build_style_heading_map_Styles styles_loop_stops_at_raise
        styles_loop_lookup_raises)
    (simp add: build_style_heading_map_def)

section \<open>Properties of the final style map\<close>

lemma apply_user_overrides_other:
  "k \<notin> fst ` set user_overrides \<Longrightarrow> apply_user_overrides user_overrides m k = m k"
  by (induction user_overrides arbitrary: m) auto

lemma apply_user_overrides_entry:
  assumes "distinct (map fst user_overrides)" and "(k, v) \<in> set user_overrides"
  shows "apply_user_overrides user_overrides m k = Some v"
  using assms
proof (induction user_overrides arbitrary: m)
  case Nil
  then show ?case by simp
next
  case (Cons item user_overrides)
  obtain k' v' where item: "item = (k', v')" by (cases item)
  show ?case
  proof (cases "(k, v) = item")
    case True
    with item Cons.prems have "k \<notin> fst ` set user_overrides" by auto
    with True item show ?thesis by (simp add: apply_user_overrides_other)
  next
    case False
    with Cons.prems item have "(k, v) \<in> set user_overrides" "distinct (map fst user_overrides)"
      by auto
    with Cons.IH item show ?thesis by simp
  qed
qed

text \<open>
  C3. Every style that is a key of the caller's \<open>style_heading_map\<close> is in the final
  map with the caller's level, whatever the catalog and \<open>STYLE_MAP\<close> are. The keys of
  a dictionary are distinct.
\<close>

theorem user_override_wins:
  assumes "distinct (map fst user_overrides)" and "(name, level) \<in> set user_overrides"
  shows "final_style_heading_map doc_styles STYLE_MAP (Some user_overrides) name = Some level"
  unfolding final_style_heading_map_def
  by (simp add: apply_user_overrides_entry [OF assms])

theorem user_override_wins_witness:
  "distinct (map fst [(''Caption'', 2::int)]) \<and> (''Caption'', 2) \<in> set [(''Caption'', 2::int)]
   \<and> build_style_heading_map
       (Styles [Style \<lparr>style_type = PARAGRAPH, style_name = Some ''Caption'', outline = No_outline\<rparr>])
       ''Caption'' = None
   \<and> final_style_heading_map
       (Styles [Style \<lparr>style_type = PARAGRAPH, style_name = Some ''Caption'', outline = No_outline\<rparr>])
       [] (Some [(''Caption'', 2)]) ''Caption'' = Some 2"
proof -
  have a: "distinct (map fst [(''Caption'', 2::int)])" by simp
  have b: "(''Caption'', 2) \<in> set [(''Caption'', 2::int)]" by simp
  have c: "build_style_heading_map
       (Styles [Style \<lparr>style_type = PARAGRAPH, style_name = Some ''Caption'', outline = No_outline\<rparr>])
       ''Caption'' = None"
    by code_simp
  from user_override_wins [OF a b] a b c show ?thesis by blast
qed

section \<open>Properties of the fallback topic\<close>

lemma fallback_topicref_queries:
  "xml_tag (fallback_topicref file_name title d) = ''topicref''
   \<and> xml_get (fallback_topicref file_name title d) ''href'' = Some (''topics/'' @ file_name)
   \<and> xml_get (fallback_topicref file_name title d) ''data-level'' = Some ''1''
   \<and> navtitles (fallback_topicref file_name title d) = [Some title]
   \<and> othermeta (fallback_topicref file_name title d) ''foldout'' = [Some ''false'']
   \<and> othermeta (fallback_topicref file_name title d) ''tdm'' = [Some ''false'']"
  by (simp add: fallback_topicref_def xml_get_def navtitles_def othermeta_def child_elements_def)

text \<open>
  C2. When no topic exists after generation and the file name has a stem, the fallback
  leaves exactly one topic: the concept created with the stem of the file name (the name
  without its extension) as title, after all block items of the document were written
  into it. It appends exactly one entry to the map: a \<open>topicref\<close> to that topic at level
  1, with the same title and with \<open>foldout\<close> and \<open>tdm\<close> both \<open>false\<close>.
\<close>

theorem fallback_single_topic:
  assumes "topics context = []" and "fst (splitext (basename file_path)) \<noteq> []"
  shows "\<exists>file_name topic_id date topicref.
           topics (fallback create_dita_concept add_content_to_topic file_path uuid_hex today
                     all_blocks context)
             = [(file_name,
                 add_content_to_topic
                   (create_dita_concept (fst (splitext (basename file_path))) topic_id date)
                   all_blocks)]
         \<and> xml_children (ditamap_root
               (fallback create_dita_concept add_content_to_topic file_path uuid_hex today
                  all_blocks context))
             = xml_children (ditamap_root context) @ [topicref]
         \<and> xml_tag topicref = ''topicref''
         \<and> xml_get topicref ''href'' = Some (''topics/'' @ file_name)
         \<and> xml_get topicref ''data-level'' = Some ''1''
         \<and> navtitles topicref = [Some (fst (splitext (basename file_path)))]
         \<and> othermeta topicref ''foldout'' = [Some ''false'']
         \<and> othermeta topicref ''tdm'' = [Some ''false'']"
proof -
  let ?file_name = "''topic_'' @ take 10 uuid_hex @ ''.dita''"
  let ?title = "fst (splitext (basename file_path))"
  let ?rev = "case metadata context ''revision_date'' of
                Some d \<Rightarrow> if d = [] then today else d | None \<Rightarrow> today"
  let ?ref = "fallback_topicref ?file_name ?title ?rev"
  have title: "fallback_title_of file_path = ?title"
    using assms(2) by (simp add: fallback_title_of_def Let_def)
  have t: "topics (fallback create_dita_concept add_content_to_topic file_path uuid_hex today
                     all_blocks context)
           = [(?file_name,
               add_content_to_topic
                 (create_dita_concept ?title (py_replace ?file_name ''.dita'' [])
                    (case metadata context ''revision_date'' of Some d \<Rightarrow> d | None \<Rightarrow> today))
                 all_blocks)]"
    using assms(1) by (simp add: fallback_def Let_def title)
  have m: "xml_children (ditamap_root
             (fallback create_dita_concept add_content_to_topic file_path uuid_hex today
                all_blocks context))
           = xml_children (ditamap_root context) @ [?ref]"
    using assms(1) by (simp add: fallback_def Let_def title SubElement_def)
  from t m fallback_topicref_queries [of ?file_name ?title ?rev] show ?thesis
    by blast
qed

theorem fallback_single_topic_witness:
  "topics \<lparr>metadata = [''revision_date'' \<mapsto> ''2024-05-01''],
           ditamap_root = Element ''map'' [] None [Element ''title'' [] (Some ''Manual'') []],
           topics = ([] :: (string \<times> string \<times> string \<times> string \<times> nat list) list)\<rparr> = []
   \<and> fst (splitext (basename ''/docs/Release Notes.docx'')) = ''Release Notes''
   \<and> map fst (topics (fallback (\<lambda>title topic_id date. (title, topic_id, date, []))
          (\<lambda>(title, topic_id, date, body) blocks. (title, topic_id, date, body @ blocks))
          ''/docs/Release Notes.docx'' ''0123456789abcdef0123456789abcdef'' ''2024-06-30'' [1, 2, 3]
          \<lparr>metadata = [''revision_date'' \<mapsto> ''2024-05-01''],
           ditamap_root = Element ''map'' [] None [Element ''title'' [] (Some ''Manual'') []],
           topics = ([] :: (string \<times> string \<times> string \<times> string \<times> nat list) list)\<rparr>))
       = [''topic_0123456789.dita'']
   \<and> map snd (topics (fallback (\<lambda>title topic_id date. (title, topic_id, date, []))
          (\<lambda>(title, topic_id, date, body) blocks. (title, topic_id, date, body @ blocks))
          ''/docs/Release Notes.docx'' ''0123456789abcdef0123456789abcdef'' ''2024-06-30'' [1, 2, 3]
          \<lparr>metadata = [''revision_date'' \<mapsto> ''2024-05-01''],
           ditamap_root = Element ''map'' [] None [Element ''title'' [] (Some ''Manual'') []],
           topics = ([] :: (string \<times> string \<times> string \<times> string \<times> nat list) list)\<rparr>))
       = [(''Release Notes'', ''topic_0123456789'', ''2024-05-01'', [1, 2, 3])]"
proof -
  let ?ctx = "\<lparr>metadata = [''revision_date'' \<mapsto> ''2024-05-01''],
           ditamap_root = Element ''map'' [] None [Element ''title'' [] (Some ''Manual'') []],
           topics = ([] :: (string \<times> string \<times> string \<times> string \<times> nat list) list)\<rparr>"
  let ?create = "\<lambda>title topic_id date. (title :: string, topic_id :: string, date :: string, [] :: nat list)"
  let ?add = "\<lambda>(title :: string, topic_id :: string, date :: string, body :: nat list) blocks. (title, topic_id, date, body @ blocks)"
  have a: "topics ?ctx = []" by simp
  have b: "fst (splitext (basename ''/docs/Release Notes.docx'')) = ''Release Notes''"
    by code_simp
  then have b': "fst (splitext (basename ''/docs/Release Notes.docx'')) \<noteq> []" by simp
  have r: "py_replace ''topic_0123456789.dita'' ''.dita'' [] = ''topic_0123456789''"
    by code_simp
  from fallback_single_topic [OF a b', of ?create ?add "''0123456789abcdef0123456789abcdef''" "''2024-06-30''" "[1, 2, 3]"]
  obtain file_name topic_id date where
    "topics (fallback ?create ?add ''/docs/Release Notes.docx'' ''0123456789abcdef0123456789abcdef''
        ''2024-06-30'' [1, 2, 3] ?ctx)
     = [(file_name, ?add (?create (fst (splitext (basename ''/docs/Release Notes.docx''))) topic_id date) [1, 2, 3])]"
    by blast
  moreover have "topics (fallback ?create ?add ''/docs/Release Notes.docx'' ''0123456789abcdef0123456789abcdef''
        ''2024-06-30'' [1, 2, 3] ?ctx)
     = [(''topic_0123456789.dita'', (''Release Notes'', ''topic_0123456789'', ''2024-05-01'', [1, 2, 3]))]"
    by (simp add: fallback_def Let_def fallback_title_of_def b r)
  ultimately show ?thesis using a b by simp
qed

section \<open>Properties of the character classes\<close>

lemma code_point_less: "code_point c < 256"
  unfolding code_point_def by (metis of_char_mod_256 mod_less_divisor zero_less_numeral)

lemma code_point_lower_char:
  "code_point (lower_char c) =
     (if (65 \<le> code_point c \<and> code_point c \<le> 90)
         \<or> (192 \<le> code_point c \<and> code_point c \<le> 222 \<and> code_point c \<noteq> 215)
      then code_point c + 32 else code_point c)"
  unfolding lower_char_def Let_def code_point_def by (auto simp: of_char_of)

lemma is_space_lower_char [simp]: "is_space (lower_char c) = is_space c"
  unfolding is_space_def Let_def code_point_lower_char by auto

lemma is_decimal_lower_char [simp]: "is_decimal (lower_char c) = is_decimal c"
  unfolding is_decimal_def Let_def code_point_lower_char by auto

lemma lower_char_space: "is_space c \<Longrightarrow> lower_char c = c"
  unfolding is_space_def lower_char_def Let_def by auto

lemma lower_char_decimal: "is_decimal c \<Longrightarrow> lower_char c = c"
  unfolding is_decimal_def lower_char_def Let_def by auto

lemma space_not_decimal: "is_space c \<Longrightarrow> \<not> is_decimal c"
  unfolding is_space_def is_decimal_def Let_def by auto

lemma decimal_is_word: "is_decimal c \<Longrightarrow> is_word c"
  unfolding is_word_def is_decimal_def Let_def by auto

lemma decimal_is_digit_char: "is_decimal c \<Longrightarrow> is_digit_char c"
  unfolding is_digit_char_def is_decimal_def Let_def by auto

lemma sep_facts: "is_sep c \<Longrightarrow> \<not> is_word c \<and> \<not> is_decimal c \<and> \<not> is_space c"
  unfolding is_sep_def is_word_def is_decimal_def is_space_def Let_def code_point_def by auto

lemma newline_facts: "is_space (CHR 0x0A) \<and> \<not> is_decimal (CHR 0x0A)"
  unfolding is_decimal_def is_space_def Let_def code_point_def by simp

section \<open>Properties of the matcher\<close>

lemma star_cls_first:
  assumes "list_all p xs" and "rest = [] \<or> \<not> p (hd rest)"
  shows "\<exists>others. star_cls p prev (xs @ rest) = (if xs = [] then prev else Some (last xs), rest) # others"
  using assms
proof (induction xs arbitrary: prev)
  case Nil
  then show ?case by (cases rest) auto
next
  case (Cons x xs)
  then obtain others where
    "star_cls p (Some x) (xs @ rest) = (if xs = [] then Some x else Some (last xs), rest) # others"
    by fastforce
  with Cons.prems show ?case by auto
qed

lemma first_resultI: "rmatch r st = st' # others \<Longrightarrow> first_result r st st'"
  by (simp add: first_result_def)

lemma first_resultE:
  assumes "first_result r st st'"
  obtains others where "rmatch r st = st' # others"
  using assms by (auto simp: first_result_def split: list.splits)

lemma first_Cls: "p c \<Longrightarrow> first_result (Cls p) (prev, c # cs, caps) (Some c, cs, caps)"
  by (simp add: first_result_def)

lemma first_Star:
  assumes "list_all p xs" and "rest = [] \<or> \<not> p (hd rest)"
  shows "first_result (Star p) (prev, xs @ rest, caps)
           (if xs = [] then prev else Some (last xs), rest, caps)"
proof -
  from star_cls_first [OF assms, of prev] obtain others where
    "star_cls p prev (xs @ rest) = (if xs = [] then prev else Some (last xs), rest) # others" ..
  then show ?thesis by (simp add: first_result_def)
qed

lemma first_Seq:
  assumes "first_result a st st1" and "first_result b st1 st2"
  shows "first_result (Seq a b) st st2"
proof -
  from assms(1) obtain m1 where "rmatch a st = st1 # m1" by (rule first_resultE)
  moreover from assms(2) obtain m2 where "rmatch b st1 = st2 # m2" by (rule first_resultE)
  ultimately show ?thesis by (simp add: first_result_def)
qed

lemma first_plus:
  assumes "xs \<noteq> []" and "list_all p xs" and "rest = [] \<or> \<not> p (hd rest)"
  shows "first_result (plus p) (prev, xs @ rest, caps) (Some (last xs), rest, caps)"
proof -
  from assms(1) obtain x xs' where xs: "xs = x # xs'" by (cases xs) auto
  with assms(2) have px: "p x" and pxs: "list_all p xs'" by auto
  have 1: "first_result (Cls p) (prev, xs @ rest, caps) (Some x, xs' @ rest, caps)"
    using px xs by (simp add: first_Cls)
  have 2: "first_result (Star p) (Some x, xs' @ rest, caps)
             (if xs' = [] then Some x else Some (last xs'), rest, caps)"
    using pxs assms(3) by (rule first_Star)
  have "(if xs' = [] then Some x else Some (last xs')) = Some (last xs)"
    using xs by simp
  with 2 have "first_result (Star p) (Some x, xs' @ rest, caps) (Some (last xs), rest, caps)"
    by simp
  with 1 show ?thesis unfolding plus_def by (rule first_Seq)
qed

lemma first_Grp:
  assumes "first_result r (prev, rest, caps) (q, rest', caps')"
  shows "first_result (Grp k r) (prev, rest, caps)
           (q, rest', (k, take (length rest - length rest') rest) # caps')"
proof -
  from assms obtain others where "rmatch r (prev, rest, caps) = (q, rest', caps') # others"
    by (rule first_resultE)
  then show ?thesis by (simp add: first_result_def)
qed

lemma first_Eos:
  "rest = [] \<or> rest = [CHR 0x0A] \<Longrightarrow> first_result Eos (prev, rest, caps) (prev, rest, caps)"
  by (auto simp: first_result_def)

lemma first_Bnd:
  "word_before prev \<noteq> word_after rest \<Longrightarrow> first_result Bnd (prev, rest, caps) (prev, rest, caps)"
  by (auto simp: first_result_def)

lemma re_match_first:
  assumes "first_result r (None, s, []) (q, rest, caps)"
  shows "re_match r s = Some (take (length s - length rest) s, caps)"
proof -
  from assms obtain others where "rmatch r (None, s, []) = (q, rest, caps) # others"
    by (rule first_resultE)
  then show ?thesis by (simp add: re_match_def)
qed

lemma first_ci:
  "lower_char c = lower_char p \<Longrightarrow> first_result (ci p) (prev, c # cs, caps) (Some c, cs, caps)"
  by (simp add: ci_def first_Cls)

lemma lower_heading_letters:
  "lower_char CHR ''H'' = CHR ''h'' \<and> lower_char CHR ''e'' = CHR ''e''
   \<and> lower_char CHR ''a'' = CHR ''a'' \<and> lower_char CHR ''d'' = CHR ''d''
   \<and> lower_char CHR ''i'' = CHR ''i'' \<and> lower_char CHR ''n'' = CHR ''n''
   \<and> lower_char CHR ''g'' = CHR ''g''"
  by code_simp

section \<open>Properties of the first rule\<close>

lemma py_lower_heading:
  assumes "py_lower h = ''heading''"
  obtains c1 c2 c3 c4 c5 c6 c7 where "h = [c1, c2, c3, c4, c5, c6, c7]"
    and "lower_char c1 = CHR ''h''" and "lower_char c2 = CHR ''e''"
    and "lower_char c3 = CHR ''a''" and "lower_char c4 = CHR ''d''"
    and "lower_char c5 = CHR ''i''" and "lower_char c6 = CHR ''n''"
    and "lower_char c7 = CHR ''g''"
  using assms unfolding py_lower_def by (auto simp: map_eq_Cons_conv)

lemma builtin_heading_first:
  assumes h: "py_lower h = ''heading''"
    and ws: "ws \<noteq> []" "list_all is_space ws"
    and ds: "ds \<noteq> []" "list_all is_decimal ds"
    and nl: "nl = [] \<or> nl = [CHR 0x0A]"
  shows "first_result builtin_heading_pattern (None, h @ ws @ ds @ nl, [])
           (Some (last ds), nl, [(1, ds)])"
proof -
  from h obtain c1 c2 c3 c4 c5 c6 c7 where hh: "h = [c1, c2, c3, c4, c5, c6, c7]"
    and l: "lower_char c1 = CHR ''h''" "lower_char c2 = CHR ''e''"
      "lower_char c3 = CHR ''a''" "lower_char c4 = CHR ''d''"
      "lower_char c5 = CHR ''i''" "lower_char c6 = CHR ''n''"
      "lower_char c7 = CHR ''g''"
    by (rule py_lower_heading)
  let ?t = "ws @ ds @ nl"
  have hd_ds: "is_decimal (hd ds)" using ds by (cases ds) auto
  have "ds @ nl = [] \<or> \<not> is_space (hd (ds @ nl))"
    using ds hd_ds space_not_decimal by auto
  from first_plus [OF ws this]
  have sp: "first_result (plus is_space) (Some c7, ?t, []) (Some (last ws), ds @ nl, [])"
    by simp
  have "nl = [] \<or> \<not> is_decimal (hd nl)"
    using nl newline_facts by auto
  from ds this have "first_result (plus is_decimal) (Some (last ws), ds @ nl, [])
      (Some (last ds), nl, [])"
    by (rule first_plus)
  from first_Grp [OF this, of 1]
  have gr: "first_result (Grp 1 (plus is_decimal)) (Some (last ws), ds @ nl, [])
              (Some (last ds), nl, [(1, ds)])"
    by simp
  have eo: "first_result Eos (Some (last ds), nl, [(1, ds)]) (Some (last ds), nl, [(1, ds)])"
    using nl by (rule first_Eos)
  have tail: "first_result (Seq (plus is_space) (Seq (Grp 1 (plus is_decimal)) Eos))
                (Some c7, ?t, []) (Some (last ds), nl, [(1, ds)])"
    by (rule first_Seq [OF sp first_Seq [OF gr eo]])
  have c: "first_result (ci p) (prev, c # cs, []) (Some c, cs, [])"
    if "lower_char c = lower_char p" for p prev c cs
    using that by (rule first_ci)
  show ?thesis
    unfolding builtin_heading_pattern_def hh
    apply (simp only: append_Cons append_Nil)
    apply (rule first_Seq [OF c], simp add: l lower_heading_letters)+
    apply (rule tail)
    done
qed

lemma builtin_heading_match:
  assumes "py_lower h = ''heading''"
    and "ws \<noteq> []" "list_all is_space ws"
    and "ds \<noteq> []" "list_all is_decimal ds"
    and "nl = [] \<or> nl = [CHR 0x0A]"
  shows "\<exists>g0. re_match builtin_heading_pattern (h @ ws @ ds @ nl) = Some (g0, [(1, ds)])"
  using re_match_first [OF builtin_heading_first [OF assms]] by blast

lemma py_int_Some: "length ds \<le> int_max_str_digits \<Longrightarrow> py_int ds = Some (decimal_value ds)"
  by (simp add: py_int_def)

lemma classify_builtin_heading:
  assumes "py_lower h = ''heading''"
    and "ws \<noteq> []" "list_all is_space ws"
    and "ds \<noteq> []" "list_all is_decimal ds"
    and "nl = [] \<or> nl = [CHR 0x0A]"
    and "length ds \<le> int_max_str_digits"
    and "1 \<le> decimal_value ds" "decimal_value ds \<le> 9"
  shows "classify_style (h @ ws @ ds @ nl) ol = Inr (Some (decimal_value ds))"
proof -
  from builtin_heading_match [OF assms(1-6)] obtain g0 where
    "re_match builtin_heading_pattern (h @ ws @ ds @ nl) = Some (g0, [(1, ds)])" ..
  then show ?thesis
    unfolding classify_style_def using assms(8,9) py_int_Some [OF assms(7)]
    by (simp add: group_def)
qed

text \<open>
  A number of more digits than the conversion accepts makes the body of the loop raise:
  the first rule converts it without a handler of its own.
\<close>

lemma classify_heading_too_many_digits:
  assumes "py_lower h = ''heading''"
    and "ws \<noteq> []" "list_all is_space ws"
    and "ds \<noteq> []" "list_all is_decimal ds"
    and "nl = [] \<or> nl = [CHR 0x0A]"
    and "int_max_str_digits < length ds"
  shows "classify_style (h @ ws @ ds @ nl) ol = Inl ValueError"
proof -
  from builtin_heading_match [OF assms(1-6)] obtain g0 where
    "re_match builtin_heading_pattern (h @ ws @ ds @ nl) = Some (g0, [(1, ds)])" ..
  then show ?thesis
    unfolding classify_style_def using assms(7) by (simp add: group_def py_int_def)
qed

lemma reached_Cons:
  "reached (item # items) st \<longleftrightarrow> \<not> entry_raises item \<and> (item = Style st \<or> reached items st)"
  by (auto simp: reached_def)

lemma reached_Nil: "\<not> reached [] st"
  by (simp add: reached_def)

lemma entry_raises_Style:
  "entry_raises (Style s) \<longleftrightarrow>
     (\<exists>n. style_name s = Some n \<and> style_type s = PARAGRAPH \<and> n \<noteq> []
          \<and> classify_style n (outline s) = Inl ValueError)"
  by (auto simp: entry_raises_def split: option.splits)

lemma classified_not_raises:
  "style_name s = Some n \<Longrightarrow> classify_style n (outline s) = Inr r \<Longrightarrow> \<not> entry_raises (Style s)"
  by (simp add: entry_raises_Style)

lemma not_paragraph_not_raises:
  "style_type s \<noteq> PARAGRAPH \<Longrightarrow> \<not> entry_raises (Style s)"
  by (simp add: entry_raises_Style)

text \<open>The loop ends at the first entry that raises, whatever comes after it.\<close>

lemma styles_loop_stops_at_entry:
  assumes "entry_raises item"
  shows "exit_map (styles_loop (item # post) m) = m"
proof (cases item)
  case Inspect_raises
  then show ?thesis by (simp add: exit_map_def)
next
  case (Style s)
  with assms obtain n where "style_name s = Some n" "style_type s = PARAGRAPH" "n \<noteq> []"
    "classify_style n (outline s) = Inl ValueError"
    by (auto simp: entry_raises_Style)
  with Style show ?thesis by (simp add: exit_map_def)
qed

lemma styles_loop_determined:
  assumes cl: "\<And>ol. classify_style name ol = Inr (Some level)" and ne: "name \<noteq> []"
    and "m name = Some level
         \<or> (\<exists>st. reached items st \<and> style_type st = PARAGRAPH \<and> style_name st = Some name)"
  shows "exit_map (styles_loop items m) name = Some level"
  using assms(3)
proof (induction items arbitrary: m)
  case Nil
  then show ?case by (simp add: exit_map_def reached_def)
next
  case (Cons item items)
  show ?case
  proof (cases "entry_raises item")
    case True
    with Cons.prems have "m name = Some level" by (simp add: reached_Cons)
    with True show ?thesis by (simp add: styles_loop_stops_at_entry)
  next
    case nr: False
    then obtain s where Style: "item = Style s"
      by (cases item) (auto simp: entry_raises_def)
    show ?thesis
    proof (cases "style_type s = PARAGRAPH \<and> style_name s = Some name")
      case True
      have "exit_map (styles_loop items (m(name \<mapsto> level))) name = Some level"
        by (rule Cons.IH [of "m(name \<mapsto> level)"]) simp
      with True Style cl ne show ?thesis by simp
    next
      case False
      with Cons.prems Style
      have or: "m name = Some level
           \<or> (\<exists>st. reached items st \<and> style_type st = PARAGRAPH \<and> style_name st = Some name)"
        by (auto simp: reached_Cons)
      show ?thesis
      proof (cases "style_name s")
        case None
        with Style Cons.IH [of m, OF or] show ?thesis by simp
      next
        case (Some n)
        show ?thesis
        proof (cases "style_type s = PARAGRAPH \<and> n \<noteq> []")
          case f: False
          with Style Some Cons.IH [of m, OF or] show ?thesis by auto
        next
          case t: True
          with False Some have nn: "n \<noteq> name" by auto
          show ?thesis
          proof (cases "classify_style n (outline s)")
            case (Inl e)
            then have "classify_style n (outline s) = Inl ValueError" by (cases e) simp
            with nr Style Some t show ?thesis by (simp add: entry_raises_Style)
          next
            case (Inr r)
            show ?thesis
            proof (cases r)
              case None
              with Inr Style Some t Cons.IH [of m, OF or] show ?thesis by simp
            next
              case lv: (Some lv)
              from or nn have "(m(n \<mapsto> lv)) name = Some level
                \<or> (\<exists>st. reached items st \<and> style_type st = PARAGRAPH \<and> style_name st = Some name)"
                by auto
              from Cons.IH [of "m(n \<mapsto> lv)", OF this] Style \<open>style_name s = Some n\<close> t Inr lv
              show ?thesis by (simp add: fun_upd_def)
            qed
          qed
        qed
      qed
    qed
  qed
qed

lemma build_determined:
  assumes "\<And>ol. classify_style name ol = Inr (Some level)" and "name \<noteq> []"
    and "reached items st" and "style_type st = PARAGRAPH" and "style_name st = Some name"
  shows "build_style_heading_map (Styles items) name = Some level"
  unfolding build_style_heading_map_Styles
  using assms by (intro styles_loop_determined) auto

text \<open>
  C1, as the claim states it, fails: a paragraph style whose name matches the pattern
  with the number 2 is not in the heading map when reading an earlier entry of the
  catalog raises, since the loop ends there.
\<close>

theorem builtin_heading_style_level_counterexample:
  "re_match builtin_heading_pattern ''Heading 2'' = Some (''Heading 2'', [(1, ''2'')])
   \<and> py_int ''2'' = Some 2
   \<and> build_style_heading_map
       (Styles [Inspect_raises,
                Style \<lparr>style_type = PARAGRAPH, style_name = Some ''Heading 2'', outline = No_outline\<rparr>])
       ''Heading 2'' = None"
  by code_simp

text \<open>
  C1, amended. A paragraph style that the loop gets to (the loop does not end at an
  earlier entry of the catalog), and whose name is \<open>Heading\<close> in any letter case, then
  white space, then decimal digits, no more of them than the conversion accepts, that
  read as a number from 1 to 9 (then nothing, or the one line feed that \<^verbatim>\<open>$\<close> allows
  before the end), is in the heading map with that number as its level.
\<close>

theorem builtin_heading_style_level:
  assumes "py_lower h = ''heading''"
    and "ws \<noteq> []" and "list_all is_space ws"
    and "ds \<noteq> []" and "list_all is_decimal ds"
    and "nl = [] \<or> nl = [CHR 0x0A]"
    and "length ds \<le> int_max_str_digits"
    and "1 \<le> decimal_value ds" and "decimal_value ds \<le> 9"
    and "reached items st" and "style_type st = PARAGRAPH"
    and "style_name st = Some (h @ ws @ ds @ nl)"
  shows "build_style_heading_map (Styles items) (h @ ws @ ds @ nl) = Some (decimal_value ds)"
proof -
  have "classify_style (h @ ws @ ds @ nl) ol = Inr (Some (decimal_value ds))" for ol
    using assms(1-9) by (rule classify_builtin_heading)
  moreover have "h @ ws @ ds @ nl \<noteq> []" using assms(2) by simp
  ultimately show ?thesis
    using assms(10-12) by (rule build_determined)
qed

theorem builtin_heading_style_level_witness:
  "py_lower ''HEADing'' = ''heading'' \<and> list_all is_space [CHR '' '', CHR 0x09]
   \<and> list_all is_decimal ''07'' \<and> length ''07'' \<le> int_max_str_digits \<and> decimal_value ''07'' = 7
   \<and> reached [Style \<lparr>style_type = CHARACTER, style_name = Some ''Strong'', outline = No_outline\<rparr>,
               Style \<lparr>style_type = PARAGRAPH, style_name = Some (''HEADing'' @ [CHR '' '', CHR 0x09] @ ''07'' @ []),
                      outline = Outline 2\<rparr>]
        \<lparr>style_type = PARAGRAPH, style_name = Some (''HEADing'' @ [CHR '' '', CHR 0x09] @ ''07'' @ []),
         outline = Outline 2\<rparr>
   \<and> build_style_heading_map
       (Styles [Style \<lparr>style_type = CHARACTER, style_name = Some ''Strong'', outline = No_outline\<rparr>,
                Style \<lparr>style_type = PARAGRAPH, style_name = Some (''HEADing'' @ [CHR '' '', CHR 0x09] @ ''07'' @ []),
                       outline = Outline 2\<rparr>])
       (''HEADing'' @ [CHR '' '', CHR 0x09] @ ''07'' @ []) = Some 7"
proof -
  let ?st = "\<lparr>style_type = PARAGRAPH, style_name = Some (''HEADing'' @ [CHR '' '', CHR 0x09] @ ''07'' @ []),
         outline = Outline 2\<rparr>"
  let ?strong = "\<lparr>style_type = CHARACTER, style_name = Some ''Strong'', outline = No_outline\<rparr>"
  let ?items = "[Style ?strong, Style ?st]"
  have a: "py_lower ''HEADing'' = ''heading''" by code_simp
  have b: "[CHR '' '', CHR 0x09] \<noteq> []" by simp
  have c: "list_all is_space [CHR '' '', CHR 0x09]" by code_simp
  have d: "''07'' \<noteq> []" by simp
  have e: "list_all is_decimal ''07''" by code_simp
  have f: "[] = [] \<or> [] = [CHR 0x0A]" by simp
  have l: "length ''07'' \<le> int_max_str_digits" by (simp add: int_max_str_digits_def)
  have g: "decimal_value ''07'' = 7" by code_simp
  have g1: "1 \<le> decimal_value ''07''" and g2: "decimal_value ''07'' \<le> 9" using g by simp_all
  have "classify_style (''HEADing'' @ [CHR '' '', CHR 0x09] @ ''07'' @ []) (outline ?st)
      = Inr (Some (decimal_value ''07''))"
    using a b c d e f l g1 g2 by (rule classify_builtin_heading)
  then have "\<not> entry_raises (Style ?st)"
    by (intro classified_not_raises [where n = "''HEADing'' @ [CHR '' '', CHR 0x09] @ ''07'' @ []"]) simp_all
  moreover have "\<not> entry_raises (Style ?strong)"
    by (rule not_paragraph_not_raises) simp
  ultimately have r: "reached ?items ?st" by (simp add: reached_Cons)
  have t: "style_type ?st = PARAGRAPH" by simp
  have n: "style_name ?st = Some (''HEADing'' @ [CHR '' '', CHR 0x09] @ ''07'' @ [])" by simp
  from builtin_heading_style_level [OF a b c d e f l g1 g2 r t n] a c e l g r
  show ?thesis by simp
qed

section \<open>Properties of the other rules on built-in heading names\<close>

lemma numeric_leading_no_match:
  assumes "name = [] \<or> (\<not> is_space (hd name) \<and> \<not> is_decimal (hd name))"
  shows "re_match numeric_leading_pattern name = None"
  using assms
  by (cases name) (simp_all add: re_match_def numeric_leading_pattern_def plus_def)

lemma py_in_hd: "py_in p s \<Longrightarrow> p \<noteq> [] \<Longrightarrow> hd p \<in> set s"
  unfolding py_in_def sublist_def by (cases p) auto

lemma py_in_append_disjoint:
  assumes "set p \<inter> set t = {}" and "p \<noteq> []" and "py_in p (a @ t)"
  shows "py_in p a"
proof -
  from assms(3) consider "sublist p a" | "sublist p t"
    | p1 p2 where "p = p1 @ p2" "suffix p1 a" "prefix p2 t"
    unfolding py_in_def sublist_append by blast
  then show ?thesis
  proof cases
    case 1
    then show ?thesis by (simp add: py_in_def)
  next
    case 2
    then have "set p \<subseteq> set t" by (rule set_mono_sublist)
    with assms(1,2) show ?thesis by (cases p) auto
  next
    case 3
    from 3(3) have "set p2 \<subseteq> set t" by (rule set_mono_prefix)
    with assms(1) 3(1) have "p2 = []" by (cases p2) auto
    with 3(1,2) show ?thesis by (simp add: py_in_def)
  qed
qed

lemma no_hit_not_in:
  assumes "no_hit a p" and "list_all (\<lambda>c. is_space c \<or> is_decimal c) t"
  shows "\<not> py_in p (a @ t)"
proof
  assume i: "py_in p (a @ t)"
  from assms(1) have ne: "p \<noteq> []" by (simp add: no_hit_def)
  from assms(1) consider "list_all plain_char p" "\<not> sublist p a"
    | "plain_char (hd p)" "hd p \<notin> set a"
    unfolding no_hit_def by blast
  then show False
  proof cases
    case 1
    from 1(1) assms(2) have "set p \<inter> set t = {}"
      by (auto simp: list_all_iff plain_char_def)
    from py_in_append_disjoint [OF this ne i] 1(2) show False by (simp add: py_in_def)
  next
    case 2
    from py_in_hd [OF i ne] 2(2) have "hd p \<in> set t" by simp
    with assms(2) 2(1) show False by (auto simp: list_all_iff plain_char_def)
  qed
qed

lemma no_hits_not_in:
  assumes "list_all (no_hit a) ps" and "list_all (\<lambda>c. is_space c \<or> is_decimal c) t"
  shows "\<not> list_ex (\<lambda>p. py_in p (a @ t)) ps"
  using assms no_hit_not_in by (auto simp: list_all_iff list_ex_iff)

lemma heading_no_hits:
  "list_all (no_hit ''heading'') strong_exclusions"
  "list_all (no_hit ''heading'') medium_exclusions"
  "list_all (no_hit ''heading'') international_patterns"
  "list_all (no_hit ''heading'') [''style'', ''text'']"
  "list_all (no_hit ''heading'') [''title'', ''main'', ''principal'', ''primary'']"
  "list_all (no_hit ''heading'') [''section'', ''chapter'', ''part'']"
  "list_all (no_hit ''heading'') [''subsection'', ''subchapter'']"
  by code_simp+

lemma builtin_not_heading_prefix:
  "list_all (\<lambda>b. take 7 (py_lower b) \<noteq> ''heading'') builtin_non_heading_styles"
  by code_simp

lemma py_lower_unchanged:
  "list_all (\<lambda>c. is_space c \<or> is_decimal c) t \<Longrightarrow> py_lower t = t"
  unfolding py_lower_def
  by (induction t) (auto simp: lower_char_space lower_char_decimal)

lemma heading_name_lower:
  assumes "py_lower h = ''heading''" and "list_all (\<lambda>c. is_space c \<or> is_decimal c) t"
  shows "py_lower (h @ t) = ''heading'' @ t"
  using assms py_lower_unchanged [OF assms(2)] by (simp add: py_lower_def)

lemma strip_trailing_newline:
  assumes "a \<noteq> []" and "\<not> is_space (hd a)"
    and "ds \<noteq> []" and "list_all is_decimal ds"
    and "nl = [] \<or> nl = [CHR 0x0A]"
  shows "py_strip (a @ ws @ ds @ nl) = a @ ws @ ds"
proof -
  have front: "dropWhile is_space (a @ ws @ ds @ nl) = a @ ws @ ds @ nl"
    using assms(1,2) by (cases a) auto
  have "is_decimal (last ds)" using assms(3,4) by (auto simp: list_all_iff)
  then have l: "\<not> is_space (last ds)" using space_not_decimal by blast
  have d1: "dropWhile is_space (rev ds @ R) = rev ds @ R" for R
  proof -
    from assms(3) obtain x xs where r: "rev ds = x # xs" by (cases "rev ds") auto
    then have "x = last ds" using assms(3) by (metis hd_rev list.sel(1))
    with l have "dropWhile is_space ((x # xs) @ R) = (x # xs) @ R" by simp
    then show ?thesis unfolding r .
  qed
  have d2: "dropWhile is_space (rev nl @ X) = dropWhile is_space X" for X
    using assms(5) newline_facts by auto
  have "dropWhile is_space (rev nl @ rev ds @ rev ws @ rev a) = rev ds @ rev ws @ rev a"
    unfolding d2 by (rule d1)
  then have "rev (dropWhile is_space (rev (a @ ws @ ds @ nl))) = a @ ws @ ds"
    by simp
  then show ?thesis unfolding py_strip_def front .
qed

lemma heading_name_strip:
  assumes "ds \<noteq> []" and "list_all is_decimal ds" and "nl = [] \<or> nl = [CHR 0x0A]"
  shows "py_strip (''heading'' @ ws @ ds @ nl) = ''heading'' @ ws @ ds"
proof -
  have a: "''heading'' \<noteq> []" by simp
  have b: "\<not> is_space (hd ''heading'')" by code_simp
  show ?thesis by (rule strip_trailing_newline [OF a b assms])
qed

lemma re_search_from_number:
  assumes "list_all (\<lambda>c. \<not> is_decimal c) pre" and "ds \<noteq> []" and "list_all is_decimal ds"
    and "rest = [] \<or> \<not> is_decimal (hd rest)"
  shows "re_search_from number_pattern prev (pre @ ds @ rest) = Some (ds, [(1, ds)])"
  using assms(1)
proof (induction pre arbitrary: prev)
  case Nil
  from assms(2-4) have "first_result (plus is_decimal) (prev, ds @ rest, []) (Some (last ds), rest, [])"
    by (rule first_plus)
  from first_Grp [OF this, of 1]
  have "first_result number_pattern (prev, ds @ rest, []) (Some (last ds), rest, [(1, ds)])"
    by (simp add: number_pattern_def)
  then obtain others where "rmatch number_pattern (prev, ds @ rest, []) = (Some (last ds), rest, [(1, ds)]) # others"
    by (rule first_resultE)
  then show ?case by (subst re_search_from.simps) simp
next
  case (Cons c pre)
  then have "rmatch number_pattern (prev, (c # pre) @ ds @ rest, []) = []"
    by (intro rmatch_number_pattern_no_digit) simp
  with Cons show ?case by (subst re_search_from.simps) simp
qed

lemma infer_heading_name:
  assumes "py_lower h = ''heading''"
    and "list_all is_space ws" and "ds \<noteq> []" and "list_all is_decimal ds"
    and "nl = [] \<or> nl = [CHR 0x0A]"
    and "decimal_value ds < 1 \<or> 9 < decimal_value ds"
  shows "infer_heading_level (h @ ws @ ds @ nl) = 2"
proof -
  have hnd: "list_all (\<lambda>c. \<not> is_decimal c) h"
  proof -
    have "\<not> is_decimal c" if "c \<in> set h" for c
    proof -
      from that have "lower_char c \<in> set (py_lower h)" by (simp add: py_lower_def)
      then have "lower_char c \<in> set ''heading''" by (simp add: assms(1))
      moreover have "list_all (\<lambda>c. \<not> is_decimal c) ''heading''" by code_simp
      ultimately have "\<not> is_decimal (lower_char c)" by (simp only: list_all_iff) blast
      then show ?thesis by simp
    qed
    then show ?thesis by (simp add: list_all_iff)
  qed
  have "list_all (\<lambda>c. \<not> is_decimal c) (h @ ws)"
    using hnd assms(2) space_not_decimal by (auto simp: list_all_iff)
  moreover have "nl = [] \<or> \<not> is_decimal (hd nl)"
    using assms(5) newline_facts by auto
  ultimately have "re_search_from number_pattern None ((h @ ws) @ ds @ nl) = Some (ds, [(1, ds)])"
    using assms(3,4) by (intro re_search_from_number)
  then have s: "re_search number_pattern (h @ ws @ ds @ nl) = Some (ds, [(1, ds)])"
    by (simp add: re_search_def)
  have t: "list_all (\<lambda>c. is_space c \<or> is_decimal c) (ws @ ds @ nl)"
    using assms(2,4,5) newline_facts by (auto simp: list_all_iff)
  define L where "L = py_lower (h @ ws @ ds @ nl)"
  have L: "L = ''heading'' @ (ws @ ds @ nl)"
    unfolding L_def using heading_name_lower [OF assms(1) t] by simp
  have n1: "\<not> list_ex (\<lambda>p. py_in p L) [''title'', ''main'', ''principal'', ''primary'']"
    unfolding L by (rule no_hits_not_in [OF heading_no_hits(5) t])
  have n2: "\<not> list_ex (\<lambda>p. py_in p L) [''section'', ''chapter'', ''part'']"
    unfolding L by (rule no_hits_not_in [OF heading_no_hits(6) t])
  have n3: "\<not> list_ex (\<lambda>p. py_in p L) [''subsection'', ''subchapter'']"
    unfolding L by (rule no_hits_not_in [OF heading_no_hits(7) t])
  show ?thesis
    unfolding infer_heading_level_def L_def [symmetric] Let_def s
    using assms(6) n1 n2 n3 by (auto simp: group_def py_int_def)
qed

lemma classify_heading_out_of_range:
  assumes h: "py_lower h = ''heading''"
    and ws: "ws \<noteq> []" "list_all is_space ws"
    and ds: "ds \<noteq> []" "list_all is_decimal ds"
    and nl: "nl = [] \<or> nl = [CHR 0x0A]"
    and len: "length ds \<le> int_max_str_digits"
    and out: "decimal_value ds < 1 \<or> 9 < decimal_value ds"
  shows "classify_style (h @ ws @ ds @ nl) ol = Inr (Some 2)"
proof -
  define name where "name = h @ ws @ ds @ nl"
  define L where "L = ''heading'' @ (ws @ ds)"
  from builtin_heading_match [OF h ws ds nl] obtain g0 where
    m1: "re_match builtin_heading_pattern name = Some (g0, [(1, ds)])"
    unfolding name_def ..
  from h obtain c cs where hc: "h = c # cs" and lc: "lower_char c = CHR ''h''"
    by (rule py_lower_heading) simp
  have "is_space (lower_char c) = is_space CHR ''h''" "is_decimal (lower_char c) = is_decimal CHR ''h''"
    by (simp_all only: lc)
  moreover have "\<not> is_space CHR ''h'' \<and> \<not> is_decimal CHR ''h''" by code_simp
  ultimately have "\<not> is_space c \<and> \<not> is_decimal c" by simp
  then have m2: "re_match numeric_leading_pattern name = None"
    unfolding name_def hc by (intro numeric_leading_no_match) simp
  have t: "list_all (\<lambda>c. is_space c \<or> is_decimal c) (ws @ ds @ nl)"
    using ws(2) ds(2) nl newline_facts by (auto simp: list_all_iff)
  have t': "list_all (\<lambda>c. is_space c \<or> is_decimal c) (ws @ ds)"
    using ws(2) ds(2) by (auto simp: list_all_iff)
  have low: "py_lower name = ''heading'' @ ws @ ds @ nl"
    unfolding name_def by (rule heading_name_lower [OF h t])
  have SL: "py_strip (py_lower name) = L"
    unfolding low L_def using heading_name_strip [OF ds nl, of ws] by simp
  have p7: "take 7 (py_lower name) = ''heading''" unfolding low by simp
  have L7: "take 7 L = ''heading''" unfolding L_def by simp
  have b1: "name \<notin> set builtin_non_heading_styles"
    using builtin_not_heading_prefix p7 by (auto simp: list_all_iff)
  have b2: "\<not> list_ex (\<lambda>builtin. py_lower builtin = L) builtin_non_heading_styles"
    using builtin_not_heading_prefix L7 by (auto simp: list_all_iff list_ex_iff)
  have x1: "\<not> list_ex (\<lambda>p. py_in p L) strong_exclusions"
    unfolding L_def by (rule no_hits_not_in [OF heading_no_hits(1) t'])
  have x2: "\<not> list_ex (\<lambda>p. py_in p L) medium_exclusions"
    unfolding L_def by (rule no_hits_not_in [OF heading_no_hits(2) t'])
  have x3: "\<not> list_ex (\<lambda>p. py_in p L) international_patterns"
    unfolding L_def by (rule no_hits_not_in [OF heading_no_hits(3) t'])
  have "\<not> list_ex (\<lambda>p. py_in p L) [''style'', ''text'']"
    unfolding L_def by (rule no_hits_not_in [OF heading_no_hits(4) t'])
  then have y2: "\<not> py_in ''style'' L" and y3: "\<not> py_in ''text'' L" by simp_all
  have y1: "py_in ''heading'' L" unfolding L_def py_in_def by (rule sublist_append_rightI)
  have inf: "infer_heading_level name = 2"
    unfolding name_def using h ws(2) ds nl out by (rule infer_heading_name)
  have "classify_style name ol = Inr (Some 2)"
    unfolding classify_style_def Let_def SL m1 m2
    using out b1 b2 x1 x2 x3 y1 y2 y3 inf py_int_Some [OF len] by (auto simp: group_def)
  then show ?thesis unfolding name_def .
qed

text \<open>
  C10, as the claim states it, fails: a paragraph style named \<open>Heading 10\<close> is not in
  the heading map when reading an earlier entry of the catalog raises, since the loop
  ends there.
\<close>

theorem heading_number_out_of_range_level_counterexample:
  "re_match builtin_heading_pattern ''Heading 10'' = Some (''Heading 10'', [(1, ''10'')])
   \<and> py_int ''10'' = Some 10
   \<and> build_style_heading_map
       (Styles [Inspect_raises,
                Style \<lparr>style_type = PARAGRAPH, style_name = Some ''Heading 10'', outline = No_outline\<rparr>])
       ''Heading 10'' = None"
  by code_simp

text \<open>
  C10, amended. A paragraph style that the loop gets to (the loop does not end at an
  earlier entry of the catalog), named \<open>Heading\<close> (in any letter case), white space and
  a number outside 1 to 9 of no more digits than the conversion accepts, is not taken
  by the first rule and is still entered into the heading map, at level 2: the rule for
  names containing \<open>heading\<close> includes it, and the level inference finds no number in
  range and no tier word.
\<close>

theorem heading_number_out_of_range_level:
  assumes "py_lower h = ''heading''"
    and "ws \<noteq> []" and "list_all is_space ws"
    and "ds \<noteq> []" and "list_all is_decimal ds"
    and "nl = [] \<or> nl = [CHR 0x0A]"
    and "length ds \<le> int_max_str_digits"
    and "decimal_value ds < 1 \<or> 9 < decimal_value ds"
    and "reached items st" and "style_type st = PARAGRAPH"
    and "style_name st = Some (h @ ws @ ds @ nl)"
  shows "build_style_heading_map (Styles items) (h @ ws @ ds @ nl) = Some 2"
proof -
  have "classify_style (h @ ws @ ds @ nl) ol = Inr (Some 2)" for ol
    using assms(1-8) by (rule classify_heading_out_of_range)
  moreover have "h @ ws @ ds @ nl \<noteq> []" using assms(2) by simp
  ultimately show ?thesis
    using assms(9-11) by (rule build_determined)
qed

theorem heading_number_out_of_range_level_witness:
  "py_lower ''Heading'' = ''heading'' \<and> list_all is_space '' '' \<and> list_all is_decimal ''10''
   \<and> decimal_value ''10'' = 10 \<and> decimal_value ''0'' = 0
   \<and> length ''10'' \<le> int_max_str_digits
   \<and> reached
        [Style \<lparr>style_type = PARAGRAPH, style_name = Some (''Heading'' @ '' '' @ ''10'' @ []),
                outline = No_outline\<rparr>,
         Style \<lparr>style_type = PARAGRAPH, style_name = Some (''Heading'' @ '' '' @ ''0'' @ []),
                outline = No_outline\<rparr>]
        \<lparr>style_type = PARAGRAPH, style_name = Some (''Heading'' @ '' '' @ ''0'' @ []),
         outline = No_outline\<rparr>
   \<and> build_style_heading_map
        (Styles [Style \<lparr>style_type = PARAGRAPH, style_name = Some (''Heading'' @ '' '' @ ''10'' @ []),
                        outline = No_outline\<rparr>,
                 Style \<lparr>style_type = PARAGRAPH, style_name = Some (''Heading'' @ '' '' @ ''0'' @ []),
                        outline = No_outline\<rparr>])
        (''Heading'' @ '' '' @ ''10'' @ []) = Some 2
   \<and> build_style_heading_map
        (Styles [Style \<lparr>style_type = PARAGRAPH, style_name = Some (''Heading'' @ '' '' @ ''10'' @ []),
                        outline = No_outline\<rparr>,
                 Style \<lparr>style_type = PARAGRAPH, style_name = Some (''Heading'' @ '' '' @ ''0'' @ []),
                        outline = No_outline\<rparr>])
        (''Heading'' @ '' '' @ ''0'' @ []) = Some 2"
proof -
  let ?s10 = "\<lparr>style_type = PARAGRAPH, style_name = Some (''Heading'' @ '' '' @ ''10'' @ []),
                        outline = No_outline\<rparr>"
  let ?s0 = "\<lparr>style_type = PARAGRAPH, style_name = Some (''Heading'' @ '' '' @ ''0'' @ []),
                        outline = No_outline\<rparr>"
  let ?items = "[Style ?s10, Style ?s0]"
  have a: "py_lower ''Heading'' = ''heading''" by code_simp
  have b: "'' '' \<noteq> []" by simp
  have c: "list_all is_space '' ''" by code_simp
  have d: "''10'' \<noteq> []" "''0'' \<noteq> []" by simp_all
  have e: "list_all is_decimal ''10''" "list_all is_decimal ''0''" by code_simp+
  have f: "[] = [] \<or> [] = [CHR 0x0A]" by simp
  have l: "length ''10'' \<le> int_max_str_digits" "length ''0'' \<le> int_max_str_digits"
    by (simp_all add: int_max_str_digits_def)
  have g: "decimal_value ''10'' = 10" "decimal_value ''0'' = 0" by code_simp+
  have g10: "decimal_value ''10'' < 1 \<or> 9 < decimal_value ''10''" using g by simp
  have g0: "decimal_value ''0'' < 1 \<or> 9 < decimal_value ''0''" using g by simp
  have "classify_style (''Heading'' @ '' '' @ ''10'' @ []) (outline ?s10) = Inr (Some 2)"
    using a b c d(1) e(1) f l(1) g10 by (rule classify_heading_out_of_range)
  then have n10: "\<not> entry_raises (Style ?s10)"
    by (intro classified_not_raises [where n = "''Heading'' @ '' '' @ ''10'' @ []"]) simp_all
  have "classify_style (''Heading'' @ '' '' @ ''0'' @ []) (outline ?s0) = Inr (Some 2)"
    using a b c d(2) e(2) f l(2) g0 by (rule classify_heading_out_of_range)
  then have n0: "\<not> entry_raises (Style ?s0)"
    by (intro classified_not_raises [where n = "''Heading'' @ '' '' @ ''0'' @ []"]) simp_all
  have r: "reached ?items ?s10" "reached ?items ?s0"
    using n10 n0 by (simp_all add: reached_Cons)
  have t: "style_type ?s10 = PARAGRAPH" "style_type ?s0 = PARAGRAPH" by simp_all
  have n: "style_name ?s10 = Some (''Heading'' @ '' '' @ ''10'' @ [])"
    "style_name ?s0 = Some (''Heading'' @ '' '' @ ''0'' @ [])" by simp_all
  from heading_number_out_of_range_level [OF a b c d(1) e(1) f l(1) g10 r(1) t(1) n(1)]
    heading_number_out_of_range_level [OF a b c d(2) e(2) f l(2) g0 r(2) t(2) n(2)]
    a c e g l(1) r(2)
  show ?thesis by simp
qed

section \<open>Properties of the built-in names that are no headings\<close>

lemma rmatch_ci_Seq:
  assumes "rmatch (Seq (ci p) r) (prev, s, caps) \<noteq> []"
  obtains c cs where "s = c # cs" and "lower_char c = lower_char p"
    and "rmatch r (Some c, cs, caps) \<noteq> []"
  using assms by (cases s) (auto simp: ci_def split: if_splits)

lemma builtin_heading_match_prefix:
  assumes "re_match builtin_heading_pattern name \<noteq> None"
  shows "take 7 (py_lower name) = ''heading''"
proof -
  from assms have "rmatch builtin_heading_pattern (None, name, []) \<noteq> []"
    by (auto simp: re_match_def)
  then obtain c1 s1 where 1: "name = c1 # s1" "lower_char c1 = lower_char CHR ''H''"
    and m1: "rmatch (Seq (ci CHR ''e'') (Seq (ci CHR ''a'') (Seq (ci CHR ''d'')
     (Seq (ci CHR ''i'') (Seq (ci CHR ''n'') (Seq (ci CHR ''g'')
     (Seq (plus is_space) (Seq (Grp 1 (plus is_decimal)) Eos))))))))
       (Some c1, s1, []) \<noteq> []"
    unfolding builtin_heading_pattern_def by (rule rmatch_ci_Seq)
  from m1 obtain c2 s2 where 2: "s1 = c2 # s2" "lower_char c2 = lower_char CHR ''e''"
    and m2: "rmatch (Seq (ci CHR ''a'') (Seq (ci CHR ''d'')
     (Seq (ci CHR ''i'') (Seq (ci CHR ''n'') (Seq (ci CHR ''g'')
     (Seq (plus is_space) (Seq (Grp 1 (plus is_decimal)) Eos)))))))
       (Some c2, s2, []) \<noteq> []"
    by (rule rmatch_ci_Seq)
  from m2 obtain c3 s3 where 3: "s2 = c3 # s3" "lower_char c3 = lower_char CHR ''a''"
    and m3: "rmatch (Seq (ci CHR ''d'')
     (Seq (ci CHR ''i'') (Seq (ci CHR ''n'') (Seq (ci CHR ''g'')
     (Seq (plus is_space) (Seq (Grp 1 (plus is_decimal)) Eos))))))
       (Some c3, s3, []) \<noteq> []"
    by (rule rmatch_ci_Seq)
  from m3 obtain c4 s4 where 4: "s3 = c4 # s4" "lower_char c4 = lower_char CHR ''d''"
    and m4: "rmatch (Seq (ci CHR ''i'') (Seq (ci CHR ''n'') (Seq (ci CHR ''g'')
     (Seq (plus is_space) (Seq (Grp 1 (plus is_decimal)) Eos)))))
       (Some c4, s4, []) \<noteq> []"
    by (rule rmatch_ci_Seq)
  from m4 obtain c5 s5 where 5: "s4 = c5 # s5" "lower_char c5 = lower_char CHR ''i''"
    and m5: "rmatch (Seq (ci CHR ''n'') (Seq (ci CHR ''g'')
     (Seq (plus is_space) (Seq (Grp 1 (plus is_decimal)) Eos))))
       (Some c5, s5, []) \<noteq> []"
    by (rule rmatch_ci_Seq)
  from m5 obtain c6 s6 where 6: "s5 = c6 # s6" "lower_char c6 = lower_char CHR ''n''"
    and m6: "rmatch (Seq (ci CHR ''g'')
     (Seq (plus is_space) (Seq (Grp 1 (plus is_decimal)) Eos)))
       (Some c6, s6, []) \<noteq> []"
    by (rule rmatch_ci_Seq)
  from m6 obtain c7 s7 where 7: "s6 = c7 # s7" "lower_char c7 = lower_char CHR ''g''"
    by (rule rmatch_ci_Seq)
  show ?thesis
    unfolding py_lower_def 1 2 3 4 5 6 7
    by (simp add: 1 2 3 4 5 6 7 lower_heading_letters)
qed

lemma py_strip_unchanged:
  assumes "s \<noteq> []" and "\<not> is_space (hd s)" and "\<not> is_space (last s)"
  shows "py_strip s = s"
proof -
  have "dropWhile is_space s = s" using assms(1,2) by (cases s) auto
  moreover have "dropWhile is_space (rev s) = rev s"
    using assms(1,3) by (cases "rev s") (auto simp: last_rev [symmetric] simp del: last_rev)
  ultimately show ?thesis by (simp add: py_strip_def)
qed

lemma builtin_names_ends:
  "list_all (\<lambda>b. b \<noteq> [] \<and> \<not> is_space (hd b) \<and> \<not> is_decimal (hd b) \<and> \<not> is_space (last b))
     builtin_non_heading_styles"
  by code_simp

lemma builtin_names_facts:
  assumes "b \<in> set builtin_non_heading_styles"
  shows "b \<noteq> []" and "\<not> is_space (hd (py_lower b))" and "\<not> is_decimal (hd (py_lower b))"
    and "py_strip (py_lower b) = py_lower b"
proof -
  from assms builtin_names_ends
  have e: "b \<noteq> []" "\<not> is_space (hd b)" "\<not> is_decimal (hd b)" "\<not> is_space (last b)"
    by (auto simp: list_all_iff)
  show "b \<noteq> []" by (rule e(1))
  have h: "hd (py_lower b) = lower_char (hd b)" and l: "last (py_lower b) = lower_char (last b)"
    using e(1) by (simp_all add: py_lower_def hd_map last_map)
  show "\<not> is_space (hd (py_lower b))" using e(2) by (simp add: h)
  show "\<not> is_decimal (hd (py_lower b))" using e(3) by (simp add: h)
  show "py_strip (py_lower b) = py_lower b"
  proof (rule py_strip_unchanged)
    show "py_lower b \<noteq> []" using e(1) by (simp add: py_lower_def)
    show "\<not> is_space (hd (py_lower b))" using e(2) by (simp add: h)
    show "\<not> is_space (last (py_lower b))" using e(4) by (simp add: l)
  qed
qed

lemma classify_builtin_non_heading:
  assumes b: "b \<in> set builtin_non_heading_styles" and eq: "py_lower name = py_lower b"
  shows "classify_style name ol = Inr None"
proof -
  from b builtin_not_heading_prefix have "take 7 (py_lower b) \<noteq> ''heading''"
    by (auto simp: list_all_iff)
  then have "take 7 (py_lower name) \<noteq> ''heading''" by (simp only: eq not_False_eq_True)
  with builtin_heading_match_prefix [of name]
  have r1: "re_match builtin_heading_pattern name = None" by blast
  note f = builtin_names_facts [OF b]
  from f(1) eq obtain c cs where n: "name = c # cs" and "hd (py_lower b) = lower_char c"
    by (cases name) (auto simp: py_lower_def)
  with f(2,3) have "\<not> is_space c \<and> \<not> is_decimal c" by simp
  then have r2: "re_match numeric_leading_pattern name = None"
    unfolding n by (intro numeric_leading_no_match) simp
  have r3: "list_ex (\<lambda>builtin. py_lower builtin = py_strip (py_lower name))
              builtin_non_heading_styles"
    using b f(4) eq by (auto simp: list_ex_iff)
  show ?thesis
    unfolding classify_style_def Let_def r1 r2 using r3 by simp
qed

text \<open>
  C5. A name that equals one of the enumerated built-in names that are no headings, up
  to the case of its letters, is never a key of the heading map, whatever the catalog.
\<close>

theorem builtin_non_heading_never_in_map:
  assumes "b \<in> set builtin_non_heading_styles" and "py_lower name = py_lower b"
  shows "build_style_heading_map doc_styles name = None"
proof (cases doc_styles)
  case Unreadable
  then show ?thesis by (simp add: build_style_heading_map_def)
next
  case (Styles items)
  show ?thesis
  proof (rule ccontr)
    assume "build_style_heading_map doc_styles name \<noteq> None"
    then obtain v where "exit_map (styles_loop items Map.empty) name = Some v"
      using Styles by (auto simp: build_style_heading_map_Styles)
    then obtain ol where "classify_style name ol = Inr (Some v)"
      using styles_loop_origin by fastforce
    with classify_builtin_non_heading [OF assms] show False by simp
  qed
qed

theorem builtin_non_heading_never_in_map_witness:
  "''TOC 3'' \<in> set builtin_non_heading_styles \<and> py_lower ''toc 3'' = py_lower ''TOC 3''
   \<and> build_style_heading_map
        (Styles [Style \<lparr>style_type = PARAGRAPH, style_name = Some ''toc 3'', outline = Outline 2\<rparr>,
                 Style \<lparr>style_type = PARAGRAPH, style_name = Some ''Heading 1'', outline = No_outline\<rparr>])
        ''toc 3'' = None"
proof -
  have a: "''TOC 3'' \<in> set builtin_non_heading_styles" by code_simp
  have b: "py_lower ''toc 3'' = py_lower ''TOC 3''" by code_simp
  from builtin_non_heading_never_in_map [OF a b] a b show ?thesis by simp
qed

section \<open>Properties of the numeric rule\<close>

lemma first_Upto_0: "first_result (Upto 0 r) st st"
  by (simp add: first_result_def)

lemma first_Upto_stop: "rmatch r st = [] \<Longrightarrow> first_result (Upto (Suc n) r) st st"
  by (simp add: first_result_def)

lemma first_Upto_Suc:
  assumes "first_result r st st1" and "first_result (Upto n r) st1 st2"
  shows "first_result (Upto (Suc n) r) st st2"
proof -
  from assms(1) obtain o1 where "rmatch r st = st1 # o1" by (rule first_resultE)
  moreover from assms(2) obtain o2 where "rmatch (Upto n r) st1 = st2 # o2"
    by (rule first_resultE)
  ultimately show ?thesis by (simp add: first_result_def)
qed

lemma numeric_group_no_match:
  assumes "s = [] \<or> \<not> (is_sep (hd s) \<and> takeWhile is_decimal (tl s) \<noteq> [])"
  shows "rmatch numeric_group (prev, s, caps) = []"
proof (cases s)
  case Nil
  then show ?thesis by (simp add: numeric_group_def)
next
  case (Cons c r)
  show ?thesis
  proof (cases "is_sep c")
    case False
    with Cons show ?thesis by (simp add: numeric_group_def)
  next
    case True
    with assms Cons have "takeWhile is_decimal r = []" by simp
    then have "r = [] \<or> \<not> is_decimal (hd r)" by (cases r) (auto split: if_splits)
    with Cons True show ?thesis
      by (cases r) (auto simp: numeric_group_def plus_def)
  qed
qed

lemma numeric_group_first:
  assumes "is_sep c" and "takeWhile is_decimal r \<noteq> []"
  shows "first_result numeric_group (prev, c # r, caps)
           (Some (last (takeWhile is_decimal r)), dropWhile is_decimal r,
            (2, c # takeWhile is_decimal r) # caps)"
proof -
  let ?d = "takeWhile is_decimal r" and ?r' = "dropWhile is_decimal r"
  have r: "r = ?d @ ?r'" by simp
  have all: "list_all is_decimal ?d" by (simp add: list_all_iff) (meson set_takeWhileD)
  have stop: "?r' = [] \<or> \<not> is_decimal (hd ?r')" by (metis hd_dropWhile)
  from assms(2) all stop
  have "first_result (plus is_decimal) (Some c, ?d @ ?r', caps) (Some (last ?d), ?r', caps)"
    by (rule first_plus)
  then have p: "first_result (plus is_decimal) (Some c, r, caps) (Some (last ?d), ?r', caps)"
    by simp
  have "first_result (Cls is_sep) (prev, c # r, caps) (Some c, r, caps)"
    using assms(1) by (rule first_Cls)
  then have "first_result (Seq (Cls is_sep) (plus is_decimal)) (prev, c # r, caps)
      (Some (last ?d), ?r', caps)"
    using p by (rule first_Seq)
  from first_Grp [OF this, of 2]
  have "first_result numeric_group (prev, c # r, caps)
      (Some (last ?d), ?r', (2, take (length (c # r) - length ?r') (c # r)) # caps)"
    by (simp add: numeric_group_def)
  moreover have "take (length (c # r) - length ?r') (c # r) = c # ?d"
  proof -
    have "length (c # r) - length ?r' = Suc (length ?d)"
      by (metis r length_Cons length_append add_diff_cancel_right' Suc_diff_le
            le_add2 length_dropWhile_le)
    moreover have "take (length ?d) r = ?d"
      by (metis r append_eq_conv_conj)
    ultimately show ?thesis by simp
  qed
  ultimately show ?thesis by simp
qed

lemma numeric_groups_text:
  "numeric_groups s = (gs, t) \<Longrightarrow> s = groups_text gs @ t"
proof (induction s arbitrary: gs t rule: numeric_groups.induct)
  case (1 s)
  show ?case
  proof (cases s)
    case Nil
    with "1.prems" show ?thesis by (simp add: groups_text_def)
  next
    case (Cons c r)
    show ?thesis
    proof (cases "is_sep c \<and> takeWhile is_decimal r \<noteq> []")
      case False
      with Cons "1.prems" show ?thesis by (auto simp: groups_text_def)
    next
      case True
      obtain gs' t' where g: "numeric_groups (dropWhile is_decimal r) = (gs', t')"
        by (cases "numeric_groups (dropWhile is_decimal r)")
      with Cons True "1.prems" have gs: "gs = (c, takeWhile is_decimal r) # gs'" and t: "t = t'"
        by simp_all
      from "1.IH" [OF Cons True g] have "dropWhile is_decimal r = groups_text gs' @ t'" .
      then have "r = takeWhile is_decimal r @ groups_text gs' @ t'"
        by (metis takeWhile_dropWhile_id)
      then show ?thesis unfolding Cons gs t by (simp add: groups_text_def)
    qed
  qed
qed

lemma numeric_groups_seps:
  "numeric_groups s = (gs, t) \<Longrightarrow>
     list_all (\<lambda>(c, ds). is_sep c \<and> ds \<noteq> [] \<and> list_all is_decimal ds) gs"
proof (induction s arbitrary: gs t rule: numeric_groups.induct)
  case (1 s)
  show ?case
  proof (cases s)
    case Nil
    with "1.prems" show ?thesis by simp
  next
    case (Cons c r)
    show ?thesis
    proof (cases "is_sep c \<and> takeWhile is_decimal r \<noteq> []")
      case False
      with Cons "1.prems" show ?thesis by auto
    next
      case True
      obtain gs' t' where g: "numeric_groups (dropWhile is_decimal r) = (gs', t')"
        by (cases "numeric_groups (dropWhile is_decimal r)")
      with Cons True "1.prems" have gs: "gs = (c, takeWhile is_decimal r) # gs'"
        by simp
      have "list_all is_decimal (takeWhile is_decimal r)"
        by (simp add: list_all_iff) (meson set_takeWhileD)
      with "1.IH" [OF Cons True g] True show ?thesis unfolding gs by simp
    qed
  qed
qed

lemma groups_upto_first:
  assumes "numeric_groups s = (gs, t)"
  shows "\<exists>q caps'. first_result (Upto n numeric_group) (prev, s, caps)
            (q, groups_text (drop n gs) @ t, caps') \<and> (q = prev \<or> word_before q)"
  using assms
proof (induction n arbitrary: s gs prev caps)
  case 0
  from numeric_groups_text [OF "0.prems"] have "s = groups_text gs @ t" .
  then have "first_result (Upto 0 numeric_group) (prev, s, caps)
      (prev, groups_text (drop 0 gs) @ t, caps)"
    by (simp add: first_Upto_0)
  then show ?case by blast
next
  case (Suc n)
  show ?case
  proof (cases "s = [] \<or> \<not> (is_sep (hd s) \<and> takeWhile is_decimal (tl s) \<noteq> [])")
    case True
    with Suc.prems have gs: "gs = []" and t: "t = s"
      by (cases s; auto)+
    from True have "rmatch numeric_group (prev, s, caps) = []"
      by (rule numeric_group_no_match)
    then have "first_result (Upto (Suc n) numeric_group) (prev, s, caps) (prev, s, caps)"
      by (rule first_Upto_stop)
    then have "first_result (Upto (Suc n) numeric_group) (prev, s, caps)
        (prev, groups_text (drop (Suc n) gs) @ t, caps)"
      by (simp add: gs t groups_text_def)
    then show ?thesis by blast
  next
    case False
    then obtain c r where s: "s = c # r" and c: "is_sep c"
      and d: "takeWhile is_decimal r \<noteq> []"
      by (cases s) auto
    obtain gs' t' where g: "numeric_groups (dropWhile is_decimal r) = (gs', t')"
      by (cases "numeric_groups (dropWhile is_decimal r)")
    with Suc.prems s c d have gs: "gs = (c, takeWhile is_decimal r) # gs'" and t: "t' = t"
      by simp_all
    let ?q1 = "Some (last (takeWhile is_decimal r))"
    let ?caps1 = "(2, c # takeWhile is_decimal r) # caps"
    have 1: "first_result numeric_group (prev, s, caps) (?q1, dropWhile is_decimal r, ?caps1)"
      unfolding s using c d by (rule numeric_group_first)
    from g t have g': "numeric_groups (dropWhile is_decimal r) = (gs', t)" by simp
    from Suc.IH [OF g', of ?q1 ?caps1] obtain q caps' where
      2: "first_result (Upto n numeric_group) (?q1, dropWhile is_decimal r, ?caps1)
            (q, groups_text (drop n gs') @ t, caps')"
      and w: "q = ?q1 \<or> word_before q"
      by blast
    have "last (takeWhile is_decimal r) \<in> set (takeWhile is_decimal r)"
      using d by (rule last_in_set)
    then have "is_decimal (last (takeWhile is_decimal r))" by (meson set_takeWhileD)
    then have "word_before ?q1" by (simp add: word_before_def decimal_is_word)
    with w have wq: "word_before q" by auto
    from first_Upto_Suc [OF 1 2]
    have "first_result (Upto (Suc n) numeric_group) (prev, s, caps)
        (q, groups_text (drop (Suc n) gs) @ t, caps')"
      by (simp add: gs t)
    with wq show ?thesis by blast
  qed
qed

lemma re_split_sep_plain:
  "list_all (\<lambda>c. \<not> is_sep c) d \<Longrightarrow> re_split_sep d = [d]"
  by (induction d) auto

lemma re_split_sep_groups:
  assumes "list_all (\<lambda>c. \<not> is_sep c) d"
    and "list_all (\<lambda>(c, ds). is_sep c \<and> ds \<noteq> [] \<and> list_all is_decimal ds) gs"
  shows "re_split_sep (d @ groups_text gs) = d # map snd gs"
  using assms
proof (induction gs arbitrary: d)
  case Nil
  then show ?case by (simp add: groups_text_def re_split_sep_plain)
next
  case (Cons g gs)
  obtain c ds where g: "g = (c, ds)" by (cases g)
  with Cons.prems have c: "is_sep c" and ds: "list_all is_decimal ds"
    and rest: "list_all (\<lambda>(c, ds). is_sep c \<and> ds \<noteq> [] \<and> list_all is_decimal ds) gs"
    by auto
  from ds have "list_all (\<lambda>c. \<not> is_sep c) ds"
    using sep_facts by (auto simp: list_all_iff)
  from Cons.IH [OF this rest] have ih: "re_split_sep (ds @ groups_text gs) = ds # map snd gs" .
  have step: "re_split_sep (d @ c # x) = d # re_split_sep x" for x
    using Cons.prems(1) c
  proof (induction d)
    case Nil
    then show ?case by simp
  next
    case (Cons a d)
    then show ?case by simp
  qed
  have "groups_text (g # gs) = c # (ds @ groups_text gs)"
    by (simp add: g groups_text_def)
  then show ?case by (simp add: step ih g)
qed

lemma groups_text_take_drop:
  "groups_text gs = groups_text (take n gs) @ groups_text (drop n gs)"
  unfolding groups_text_def by (metis append_take_drop_id concat_append map_append)

lemma numeric_leading_not_builtin_heading:
  assumes "name \<noteq> []" and "is_space (hd name) \<or> is_decimal (hd name)"
  shows "re_match builtin_heading_pattern name = None"
proof (rule ccontr)
  assume "re_match builtin_heading_pattern name \<noteq> None"
  then have "take 7 (py_lower name) = ''heading''" by (rule builtin_heading_match_prefix)
  with assms(1) have "lower_char (hd name) = CHR ''h''"
    by (cases name) (auto simp: py_lower_def)
  then have "is_space (lower_char (hd name)) = is_space CHR ''h''"
    "is_decimal (lower_char (hd name)) = is_decimal CHR ''h''" by simp_all
  moreover have "\<not> is_space CHR ''h'' \<and> \<not> is_decimal CHR ''h''" by code_simp
  ultimately show False using assms(2) by simp
qed

lemma classify_numeric_prefix:
  assumes np: "numeric_prefix name = Some (segments, tail)" and nb: "\<not> word_after tail"
  shows "classify_style name ol = Inr (Some (min 6 (int (length segments))))"
proof -
  define ws where "ws = takeWhile is_space name"
  define s where "s = dropWhile is_space name"
  define d0 where "d0 = takeWhile is_decimal s"
  define s1 where "s1 = dropWhile is_decimal s"
  obtain gs t where g0: "numeric_groups s1 = (gs, t)" by (cases "numeric_groups s1")
  from np have d0: "d0 \<noteq> []"
    unfolding numeric_prefix_def Let_def s_def [symmetric] d0_def [symmetric]
    by (auto split: if_splits)
  from np d0 g0 have segs: "segments = d0 # map snd gs" and t: "t = tail"
    unfolding numeric_prefix_def Let_def s_def [symmetric] d0_def [symmetric]
      s1_def [symmetric]
    by auto
  from g0 t have g: "numeric_groups s1 = (gs, tail)" by simp
  have name: "name = ws @ d0 @ s1"
    unfolding ws_def d0_def s1_def s_def by simp
  have s1: "s1 = groups_text gs @ tail" using g by (rule numeric_groups_text)
  have seps: "list_all (\<lambda>(c, ds). is_sep c \<and> ds \<noteq> [] \<and> list_all is_decimal ds) gs"
    using g by (rule numeric_groups_seps)
  have ws: "list_all is_space ws"
    unfolding ws_def by (simp add: list_all_iff) (meson set_takeWhileD)
  have dec: "list_all is_decimal d0"
    unfolding d0_def by (simp add: list_all_iff) (meson set_takeWhileD)
  have hd0: "is_decimal (hd d0)" using d0 dec by (cases d0) auto
  have l0: "is_decimal (last d0)" using d0 dec by (auto simp: list_all_iff)
  \<comment> \<open>the first rule does not apply\<close>
  have "name \<noteq> []" using name d0 by simp
  moreover have "is_space (hd name) \<or> is_decimal (hd name)"
  proof (cases ws)
    case Nil
    with name d0 hd0 show ?thesis by simp
  next
    case (Cons w ws')
    with ws name show ?thesis by simp
  qed
  ultimately have r1: "re_match builtin_heading_pattern name = None"
    by (rule numeric_leading_not_builtin_heading)
  \<comment> \<open>the numeric pattern takes the white space, the digits and up to eight groups\<close>
  let ?p0 = "if ws = [] then None else Some (last ws)"
  have "d0 @ s1 = [] \<or> \<not> is_space (hd (d0 @ s1))"
    using d0 hd0 space_not_decimal by auto
  with ws have A: "first_result (Star is_space) (None, ws @ d0 @ s1, []) (?p0, d0 @ s1, [])"
    by (rule first_Star)
  have stop: "s1 = [] \<or> \<not> is_decimal (hd s1)"
    unfolding s1_def by (metis hd_dropWhile)
  from d0 dec stop
  have "first_result (plus is_decimal) (?p0, d0 @ s1, []) (Some (last d0), s1, [])"
    by (rule first_plus)
  from first_Grp [OF this, of 1] obtain caps1 where
    B: "first_result (Grp 1 (plus is_decimal)) (?p0, d0 @ s1, []) (Some (last d0), s1, caps1)"
    by blast
  from groups_upto_first [OF g, of 8 "Some (last d0)" caps1] obtain q caps' where
    C: "first_result (Upto 8 numeric_group) (Some (last d0), s1, caps1)
          (q, groups_text (drop 8 gs) @ tail, caps')"
    and "q = Some (last d0) \<or> word_before q"
    by blast
  with l0 have wq: "word_before q" by (auto simp: word_before_def decimal_is_word)
  let ?rest = "groups_text (drop 8 gs) @ tail"
  have "\<not> word_after ?rest"
  proof (cases "drop 8 gs")
    case Nil
    with nb show ?thesis by (simp add: groups_text_def)
  next
    case (Cons x xs)
    obtain c ds where x: "x = (c, ds)" by (cases x)
    have "x \<in> set gs" using Cons by (metis in_set_dropD list.set_intros(1))
    with seps x have "is_sep c" by (auto simp: list_all_iff)
    then have "\<not> is_word c" using sep_facts by blast
    then show ?thesis by (simp add: Cons x groups_text_def word_after_def)
  qed
  with wq have D: "first_result Bnd (q, ?rest, caps') (q, ?rest, caps')"
    by (intro first_Bnd) simp
  have "first_result numeric_leading_pattern (None, name, []) (q, ?rest, caps')"
    unfolding numeric_leading_pattern_def numeric_group_def [symmetric] name
    by (rule first_Seq [OF A first_Seq [OF B first_Seq [OF C D]]])
  then have m: "re_match numeric_leading_pattern name
      = Some (take (length name - length ?rest) name, caps')"
    by (rule re_match_first)
  \<comment> \<open>the matched text and its segments\<close>
  let ?taken = "take 8 gs"
  have "name = (ws @ d0 @ groups_text ?taken) @ ?rest"
    unfolding name s1 using groups_text_take_drop [of gs 8] by simp
  then have "take (length name - length ?rest) name = ws @ d0 @ groups_text ?taken"
    by (metis append_eq_conv_conj length_append add_diff_cancel_right')
  with m have m': "re_match numeric_leading_pattern name
      = Some (ws @ d0 @ groups_text ?taken, caps')"
    by simp
  have "dropWhile is_space (ws @ d0 @ groups_text ?taken) = dropWhile is_space (d0 @ groups_text ?taken)"
    using ws by (intro dropWhile_append2) (simp add: list_all_iff)
  also have "\<dots> = d0 @ groups_text ?taken"
    using d0 hd0 space_not_decimal by (cases d0) auto
  finally have sub: "re_sub_leading_space (ws @ d0 @ groups_text ?taken) = d0 @ groups_text ?taken"
    by (simp add: re_sub_leading_space_def)
  have nosep: "list_all (\<lambda>c. \<not> is_sep c) d0"
    using dec sep_facts by (auto simp: list_all_iff)
  have seps': "list_all (\<lambda>(c, ds). is_sep c \<and> ds \<noteq> [] \<and> list_all is_decimal ds) ?taken"
    using seps by (auto simp: list_all_iff dest: in_set_takeD)
  have split: "re_split_sep (d0 @ groups_text ?taken) = d0 # map snd ?taken"
    using nosep seps' by (rule re_split_sep_groups)
  have "py_isdigit x" if "x \<in> set (d0 # map snd ?taken)" for x
  proof -
    from that seps' d0 dec have "x \<noteq> [] \<and> list_all is_decimal x"
      by (auto simp: list_all_iff)
    then show ?thesis
      unfolding py_isdigit_def using decimal_is_digit_char by (auto simp: list_all_iff)
  qed
  then have keep: "filter py_isdigit (d0 # map snd ?taken) = d0 # map snd ?taken"
    by (intro filter_True) blast
  have len: "int (length (d0 # map snd ?taken)) = 1 + int (min 8 (length gs))"
    by simp
  have "max 1 (min 6 (1 + int (min 8 (length gs)))) = min 6 (int (length segments))"
    unfolding segs by simp
  with len have level: "max 1 (min 6 (int (length (d0 # map snd ?taken)))) = min 6 (int (length segments))"
    by simp
  show ?thesis
    unfolding classify_style_def Let_def r1 m'
    by (simp only: option.case prod.case sum.case sub split keep level)
qed

lemma numeric_prefix_name_not_empty:
  "numeric_prefix name = Some (segments, tail) \<Longrightarrow> name \<noteq> [] \<and> segments \<noteq> []"
  unfolding numeric_prefix_def Let_def
  by (cases name) (auto split: if_splits prod.splits)

text \<open>
  C4, as the claim states it, fails where the numeric prefix runs into a word character.
  The name \<open>1.2abc\<close> begins with the prefix \<open>1.2\<close> of two segments and does not match
  the built-in heading pattern, but it is entered at level 1; the name \<open>1abc\<close> begins
  with the prefix \<open>1\<close> and is not entered at all. It also fails for the style \<open>1.2 Title\<close>
  when reading an earlier entry of the catalog raises, since the loop ends there.
\<close>

theorem numeric_prefix_level_counterexample:
  "numeric_prefix ''1.2abc'' = Some ([''1'', ''2''], ''abc'')
   \<and> re_match builtin_heading_pattern ''1.2abc'' = None
   \<and> classify_style ''1.2abc'' No_outline = Inr (Some 1)
   \<and> numeric_prefix ''1abc'' = Some ([''1''], ''abc'')
   \<and> re_match builtin_heading_pattern ''1abc'' = None
   \<and> classify_style ''1abc'' No_outline = Inr None
   \<and> numeric_prefix ''1.2 Title'' = Some ([''1'', ''2''], '' Title'')
   \<and> build_style_heading_map
        (Styles [Inspect_raises,
                 Style \<lparr>style_type = PARAGRAPH, style_name = Some ''1.2 Title'', outline = No_outline\<rparr>])
        ''1.2 Title'' = None"
  by code_simp

text \<open>
  C4, amended. A paragraph style that the loop gets to (the loop does not end at an
  earlier entry of the catalog), whose name begins (after any white space) with a
  numeric dotted or dashed prefix that is followed by the end of the name or by a
  character that is no word character, is in the heading map with the level \<open>min 6 n\<close>,
  \<open>n\<close> the number of numeric segments of the prefix, which is at least 1. No such name
  matches the built-in heading pattern.
\<close>

theorem numeric_prefix_level:
  assumes "numeric_prefix name = Some (segments, tail)" and "\<not> word_after tail"
    and "reached items st" and "style_type st = PARAGRAPH" and "style_name st = Some name"
  shows "build_style_heading_map (Styles items) name = Some (min 6 (int (length segments)))
         \<and> 1 \<le> min 6 (int (length segments))
         \<and> re_match builtin_heading_pattern name = None"
proof -
  have "classify_style name ol = Inr (Some (min 6 (int (length segments))))" for ol
    using assms(1,2) by (rule classify_numeric_prefix)
  moreover from assms(1) have ne: "name \<noteq> []" and se: "segments \<noteq> []"
    using numeric_prefix_name_not_empty by blast+
  ultimately have "build_style_heading_map (Styles items) name
      = Some (min 6 (int (length segments)))"
    using assms(3-5) by (intro build_determined)
  moreover have "1 \<le> min 6 (int (length segments))"
    using se by (cases segments) auto
  moreover have "re_match builtin_heading_pattern name = None"
  proof (rule numeric_leading_not_builtin_heading [OF ne])
    from assms(1) have "takeWhile is_decimal (dropWhile is_space name) \<noteq> []"
      unfolding numeric_prefix_def Let_def by (auto split: if_splits)
    then have d: "dropWhile is_space name \<noteq> [] \<and> is_decimal (hd (dropWhile is_space name))"
      by (cases "dropWhile is_space name") (auto split: if_splits)
    show "is_space (hd name) \<or> is_decimal (hd name)"
    proof (cases "is_space (hd name)")
      case True
      then show ?thesis by simp
    next
      case False
      with ne have "dropWhile is_space name = name" by (cases name) auto
      with d show ?thesis by simp
    qed
  qed
  ultimately show ?thesis by blast
qed

theorem numeric_prefix_level_witness:
  "numeric_prefix ''1.2.3 Title'' = Some ([''1'', ''2'', ''3''], '' Title'')
   \<and> \<not> word_after '' Title''
   \<and> numeric_prefix ''4.0.12-2.7-30.5'' =
        Some ([''4'', ''0'', ''12'', ''2'', ''7'', ''30'', ''5''], [])
   \<and> reached
        [Style \<lparr>style_type = PARAGRAPH, style_name = Some ''1.2.3 Title'', outline = No_outline\<rparr>,
         Style \<lparr>style_type = PARAGRAPH, style_name = Some ''4.0.12-2.7-30.5'',
                outline = No_outline\<rparr>]
        \<lparr>style_type = PARAGRAPH, style_name = Some ''4.0.12-2.7-30.5'', outline = No_outline\<rparr>
   \<and> build_style_heading_map
        (Styles [Style \<lparr>style_type = PARAGRAPH, style_name = Some ''1.2.3 Title'', outline = No_outline\<rparr>,
                 Style \<lparr>style_type = PARAGRAPH, style_name = Some ''4.0.12-2.7-30.5'',
                        outline = No_outline\<rparr>])
        ''1.2.3 Title'' = Some 3
   \<and> build_style_heading_map
        (Styles [Style \<lparr>style_type = PARAGRAPH, style_name = Some ''1.2.3 Title'', outline = No_outline\<rparr>,
                 Style \<lparr>style_type = PARAGRAPH, style_name = Some ''4.0.12-2.7-30.5'',
                        outline = No_outline\<rparr>])
        ''4.0.12-2.7-30.5'' = Some 6"
proof -
  let ?a = "\<lparr>style_type = PARAGRAPH, style_name = Some ''1.2.3 Title'', outline = No_outline\<rparr>"
  let ?b = "\<lparr>style_type = PARAGRAPH, style_name = Some ''4.0.12-2.7-30.5'',
                        outline = No_outline\<rparr>"
  let ?items = "[Style ?a, Style ?b]"
  have pa: "numeric_prefix ''1.2.3 Title'' = Some ([''1'', ''2'', ''3''], '' Title'')"
    by code_simp
  have wa: "\<not> word_after '' Title''" by code_simp
  have pb: "numeric_prefix ''4.0.12-2.7-30.5'' =
        Some ([''4'', ''0'', ''12'', ''2'', ''7'', ''30'', ''5''], [])"
    by code_simp
  have wb: "\<not> word_after []" by (simp add: word_after_def)
  have "\<not> entry_raises (Style ?a)"
    using classify_numeric_prefix [OF pa wa, of "outline ?a"]
    by (intro classified_not_raises [where n = "''1.2.3 Title''"]) simp_all
  moreover have "\<not> entry_raises (Style ?b)"
    using classify_numeric_prefix [OF pb wb, of "outline ?b"]
    by (intro classified_not_raises [where n = "''4.0.12-2.7-30.5''"]) simp_all
  ultimately have r: "reached ?items ?a" "reached ?items ?b" by (simp_all add: reached_Cons)
  have t: "style_type ?a = PARAGRAPH" "style_type ?b = PARAGRAPH" by simp_all
  have n: "style_name ?a = Some ''1.2.3 Title''" "style_name ?b = Some ''4.0.12-2.7-30.5''"
    by simp_all
  from numeric_prefix_level [OF pa wa r(1) t(1) n(1)] numeric_prefix_level [OF pb wb r(2) t(2) n(2)]
    pa wa pb r(2)
  show ?thesis by simp
qed

section \<open>The names that the built-in heading pattern matches\<close>

lemma star_cls_results:
  "(q, rest) \<in> set (star_cls p prev s) \<Longrightarrow> \<exists>xs. s = xs @ rest \<and> list_all p xs"
proof (induction s arbitrary: prev)
  case Nil
  then show ?case by simp
next
  case (Cons c cs)
  show ?case
  proof (cases "(q, rest) = (prev, c # cs)")
    case True
    then have "c # cs = [] @ rest \<and> list_all p []" by simp
    then show ?thesis by blast
  next
    case False
    with Cons.prems have pc: "p c" and "(q, rest) \<in> set (star_cls p (Some c) cs)"
      by (auto split: if_splits)
    from Cons.IH [OF this(2)] obtain xs where "cs = xs @ rest" "list_all p xs" by blast
    with pc have "c # cs = (c # xs) @ rest \<and> list_all p (c # xs)" by simp
    then show ?thesis by blast
  qed
qed

lemma plus_results:
  assumes "(q, rest, caps') \<in> set (rmatch (plus p) (prev, s, caps))"
  shows "\<exists>xs. s = xs @ rest \<and> xs \<noteq> [] \<and> list_all p xs"
proof (cases s)
  case Nil
  with assms show ?thesis by (simp add: plus_def)
next
  case (Cons c cs)
  with assms have pc: "p c" and "(q, rest) \<in> set (star_cls p (Some c) cs)"
    by (auto simp: plus_def split: if_splits)
  from star_cls_results [OF this(2)] obtain xs where "cs = xs @ rest" "list_all p xs" by blast
  with pc Cons have "s = (c # xs) @ rest \<and> c # xs \<noteq> [] \<and> list_all p (c # xs)" by simp
  then show ?thesis by blast
qed

lemma rmatch_Seq_nonempty:
  assumes "rmatch (Seq a b) st \<noteq> []"
  obtains st1 where "st1 \<in> set (rmatch a st)" and "rmatch b st1 \<noteq> []"
  using assms by auto

text \<open>
  Every name that the built-in heading pattern matches has the form used for C1 and C10:
  \<open>Heading\<close> in any letter case, white space, decimal digits, and at most a final line
  feed. With the lemma \<open>builtin_heading_match\<close> the form characterises the match.
\<close>

lemma builtin_heading_match_shape:
  assumes "re_match builtin_heading_pattern name \<noteq> None"
  shows "\<exists>h ws ds nl. name = h @ ws @ ds @ nl \<and> py_lower h = ''heading''
           \<and> ws \<noteq> [] \<and> list_all is_space ws \<and> ds \<noteq> [] \<and> list_all is_decimal ds
           \<and> (nl = [] \<or> nl = [CHR 0x0A])"
proof -
  let ?tail = "Seq (plus is_space) (Seq (Grp 1 (plus is_decimal)) Eos)"
  from assms have "rmatch builtin_heading_pattern (None, name, []) \<noteq> []"
    by (auto simp: re_match_def)
  then obtain c1 s1 where 1: "name = c1 # s1" "lower_char c1 = lower_char CHR ''H''"
    and m1: "rmatch (Seq (ci CHR ''e'') (Seq (ci CHR ''a'') (Seq (ci CHR ''d'')
     (Seq (ci CHR ''i'') (Seq (ci CHR ''n'') (Seq (ci CHR ''g'') ?tail))))))
       (Some c1, s1, []) \<noteq> []"
    unfolding builtin_heading_pattern_def by (rule rmatch_ci_Seq)
  from m1 obtain c2 s2 where 2: "s1 = c2 # s2" "lower_char c2 = lower_char CHR ''e''"
    and m2: "rmatch (Seq (ci CHR ''a'') (Seq (ci CHR ''d'')
     (Seq (ci CHR ''i'') (Seq (ci CHR ''n'') (Seq (ci CHR ''g'') ?tail)))))
       (Some c2, s2, []) \<noteq> []"
    by (rule rmatch_ci_Seq)
  from m2 obtain c3 s3 where 3: "s2 = c3 # s3" "lower_char c3 = lower_char CHR ''a''"
    and m3: "rmatch (Seq (ci CHR ''d'')
     (Seq (ci CHR ''i'') (Seq (ci CHR ''n'') (Seq (ci CHR ''g'') ?tail))))
       (Some c3, s3, []) \<noteq> []"
    by (rule rmatch_ci_Seq)
  from m3 obtain c4 s4 where 4: "s3 = c4 # s4" "lower_char c4 = lower_char CHR ''d''"
    and m4: "rmatch (Seq (ci CHR ''i'') (Seq (ci CHR ''n'') (Seq (ci CHR ''g'') ?tail)))
       (Some c4, s4, []) \<noteq> []"
    by (rule rmatch_ci_Seq)
  from m4 obtain c5 s5 where 5: "s4 = c5 # s5" "lower_char c5 = lower_char CHR ''i''"
    and m5: "rmatch (Seq (ci CHR ''n'') (Seq (ci CHR ''g'') ?tail))
       (Some c5, s5, []) \<noteq> []"
    by (rule rmatch_ci_Seq)
  from m5 obtain c6 s6 where 6: "s5 = c6 # s6" "lower_char c6 = lower_char CHR ''n''"
    and m6: "rmatch (Seq (ci CHR ''g'') ?tail) (Some c6, s6, []) \<noteq> []"
    by (rule rmatch_ci_Seq)
  from m6 obtain c7 s7 where 7: "s6 = c7 # s7" "lower_char c7 = lower_char CHR ''g''"
    and m7: "rmatch ?tail (Some c7, s7, []) \<noteq> []"
    by (rule rmatch_ci_Seq)
  from m7 obtain st1 where a: "st1 \<in> set (rmatch (plus is_space) (Some c7, s7, []))"
    and m8: "rmatch (Seq (Grp 1 (plus is_decimal)) Eos) st1 \<noteq> []"
    by (rule rmatch_Seq_nonempty)
  obtain q1 r1 caps1 where st1: "st1 = (q1, r1, caps1)" by (cases st1)
  from plus_results [OF a [unfolded st1]] obtain ws where
    ws: "s7 = ws @ r1" "ws \<noteq> []" "list_all is_space ws" by blast
  from m8 obtain st2 where b: "st2 \<in> set (rmatch (Grp 1 (plus is_decimal)) st1)"
    and m9: "rmatch Eos st2 \<noteq> []"
    by (rule rmatch_Seq_nonempty)
  obtain q2 r2 caps2 where st2: "st2 = (q2, r2, caps2)" by (cases st2)
  from b obtain caps3 where "(q2, r2, caps3) \<in> set (rmatch (plus is_decimal) (q1, r1, caps1))"
    unfolding st1 st2 by auto
  from plus_results [OF this] obtain ds where
    ds: "r1 = ds @ r2" "ds \<noteq> []" "list_all is_decimal ds" by blast
  from m9 have nl: "r2 = [] \<or> r2 = [CHR 0x0A]"
    unfolding st2 by (auto split: if_splits)
  let ?h = "[c1, c2, c3, c4, c5, c6, c7]"
  have "name = ?h @ ws @ ds @ r2" using 1 2 3 4 5 6 7 ws ds by simp
  moreover have "py_lower ?h = ''heading''"
    by (simp add: py_lower_def 1 2 3 4 5 6 7 lower_heading_letters)
  ultimately show ?thesis using ws ds nl by blast
qed

section \<open>The loop and the digit limit of the conversion\<close>

lemma styles_loop_stops_at_raising_entry:
  assumes "entry_raises item"
  shows "exit_map (styles_loop (pre @ item # post) m) = exit_map (styles_loop pre m)"
proof (induction pre arbitrary: m)
  case Nil
  have "exit_map (styles_loop [] m) = m" by (simp add: exit_map_def)
  with styles_loop_stops_at_entry [OF assms, of post m] show ?case by simp
next
  case (Cons x pre)
  show ?case
    by (cases x) (simp_all add: Cons.IH fun_upd_def split: option.splits sum.splits)
qed

text \<open>
  A paragraph style named \<open>Heading\<close>, white space and more digits than the conversion
  accepts ends the loop: neither it nor any style after it is classified, whatever the
  number is. The first rule converts the number outside any handler but the one around
  the loop, where the level inference and \<^verbatim>\<open>_detect_builtin_heading_level\<close> catch the
  \<^verbatim>\<open>ValueError\<close> of the same conversion.
\<close>

lemma heading_too_many_digits_ends_loop:
  assumes "py_lower h = ''heading''"
    and "ws \<noteq> []" and "list_all is_space ws"
    and "ds \<noteq> []" and "list_all is_decimal ds"
    and "nl = [] \<or> nl = [CHR 0x0A]"
    and "int_max_str_digits < length ds"
    and "style_type st = PARAGRAPH" and "style_name st = Some (h @ ws @ ds @ nl)"
  shows "build_style_heading_map (Styles (pre @ Style st # post)) =
         build_style_heading_map (Styles pre)"
proof -
  have "classify_style (h @ ws @ ds @ nl) (outline st) = Inl ValueError"
    using assms(1-7) by (rule classify_heading_too_many_digits)
  with assms(2,8,9) have "entry_raises (Style st)"
    by (simp add: entry_raises_Style)
  then show ?thesis
    by (simp add: build_style_heading_map_Styles styles_loop_stops_at_raising_entry)
qed

end
